theory Spec2Isabelle
  imports Complex_Main "HOL-Library.Log_Nat"
begin

section \<open>Strings\<close>

text \<open>
  A JavaScript string is a sequence of code units; \<^typ>\<open>string\<close> holds the code units
  below 256. The class \<open>\s\<close> of the regular expression and the characters removed by
  \<open>trim()\<close> are the same set: tab, line feed, vertical tab, form feed, carriage return,
  space and the no-break space (the other members lie above 255).
\<close>

definition isWhiteSpace :: "char \<Rightarrow> bool" where
  "isWhiteSpace c = (of_char c \<in> {9, 10, 11, 12, 13, 32, 160 :: nat})"

text \<open>\<^verbatim>\<open>text.replace(/\s+/g, ' ')\<close>: every maximal run of white space becomes one space.\<close>

function collapse_ws :: "string \<Rightarrow> string" where
  "collapse_ws [] = []"
| "collapse_ws (c # cs) =
     (if isWhiteSpace c then CHR '' '' # collapse_ws (dropWhile isWhiteSpace cs)
      else c # collapse_ws cs)"
  by pat_completeness auto
termination
  by (relation "measure length") (auto simp: less_Suc_eq_le length_dropWhile_le)

text \<open>\<^verbatim>\<open>String.prototype.trim\<close>.\<close>

definition trim :: "string \<Rightarrow> string" where
  "trim s = rev (dropWhile isWhiteSpace (rev (dropWhile isWhiteSpace s)))"

text \<open>
  \<^verbatim>\<open>String.prototype.slice(start, end)\<close>: a negative index counts from the end of the
  string, both indices are clamped to the string, and an empty range gives the empty string.
\<close>

definition slice :: "string \<Rightarrow> int \<Rightarrow> int \<Rightarrow> string" where
  "slice s start end =
     (let len = int (length s);
          from = (if start < 0 then max (len + start) 0 else min start len);
          to = (if end < 0 then max (len + end) 0 else min end len)
      in if from < to then take (nat (to - from)) (drop (nat from) s) else [])"

text \<open>
  \<^verbatim>\<open>String.prototype.lastIndexOf(c, position)\<close> for a one-character search string: the
  position is clamped to \<open>[0, length - 1]\<close>, the search runs downwards from there, and the
  result is \<open>-1\<close> when nothing is found.
\<close>

fun lastIndexOf_from :: "string \<Rightarrow> char \<Rightarrow> nat \<Rightarrow> int" where
  "lastIndexOf_from s c 0 = (if s ! 0 = c then 0 else - 1)"
| "lastIndexOf_from s c (Suc k) =
     (if s ! Suc k = c then int (Suc k) else lastIndexOf_from s c k)"

definition lastIndexOf :: "string \<Rightarrow> char \<Rightarrow> int \<Rightarrow> int" where
  "lastIndexOf s c position =
     (if s = [] then - 1
      else lastIndexOf_from s c (nat (min (max position 0) (int (length s) - 1))))"

section \<open>Chunker\<close>

text \<open>
  The body of the \<^verbatim>\<open>while\<close> loop of \<^verbatim>\<open>chunkText\<close> up to the choice of \<^verbatim>\<open>end\<close>:
  \<^verbatim>\<open>
    let end = start + chunkSize;
    if (end < cleanText.length) {
      const sentenceEnd = cleanText.lastIndexOf('.', end);
      if (sentenceEnd > start + chunkSize * 0.6) { end = sentenceEnd + 1; }
    }
  \<close>
  The comparison is made in the rationals; for integer \<open>chunkSize\<close> and string positions
  this is the comparison the doubles make.
\<close>

definition chunk_end :: "string \<Rightarrow> int \<Rightarrow> int \<Rightarrow> int" where
  "chunk_end cleanText chunkSize start =
     (let end = start + chunkSize in
      if end < int (length cleanText) then
        (let sentenceEnd = lastIndexOf cleanText CHR ''.'' end in
         if (of_int sentenceEnd :: rat) > of_int start + of_int chunkSize * 0.6
         then sentenceEnd + 1 else end)
      else end)"

text \<open>
  The loop itself. It need not terminate, so the result is an option: \<open>None\<close> is a loop
  that runs forever.
\<close>

partial_function (option) chunk_loop ::
  "string \<Rightarrow> int \<Rightarrow> int \<Rightarrow> string list \<Rightarrow> string list option" where
  "chunk_loop cleanText chunkSize start chunks =
     (if start < int (length cleanText) then
        chunk_loop cleanText chunkSize (chunk_end cleanText chunkSize start)
          (let chunk = trim (slice cleanText start (chunk_end cleanText chunkSize start))
           in if length chunk > 0 then chunks @ [chunk] else chunks)
      else Some chunks)"

declare chunk_loop.simps [code]

text \<open>
  \<^verbatim>\<open>chunkText(text, chunkSize = 400)\<close> on a string; \<^verbatim>\<open>!text\<close> holds for the empty string.
\<close>

definition chunkText :: "string \<Rightarrow> int \<Rightarrow> string list option" where
  "chunkText text chunkSize =
     (if text = [] then Some []
      else let cleanText = trim (collapse_ws text) in
        if int (length cleanText) \<le> chunkSize then Some [cleanText]
        else chunk_loop cleanText chunkSize 0 [])"

text \<open>
  The backward search in the words of the specification: \<open>p\<close> is the nearest period at or
  before the boundary.
\<close>

definition nearest_period :: "string \<Rightarrow> int \<Rightarrow> int \<Rightarrow> bool" where
  "nearest_period s boundary p =
     (0 \<le> p \<and> p \<le> boundary \<and> s ! nat p = CHR ''.'' \<and>
      (\<forall>q \<in> set [p + 1..boundary]. s ! nat q \<noteq> CHR ''.''))"

section \<open>Numbers\<close>

text \<open>
  A JavaScript number is an IEEE 754 binary64 value: \<open>NaN\<close>, an infinity with its sign, or
  a finite value with its sign and its magnitude, a rational (the sign is kept so that the
  two zeros are distinct). Every operation returns the exact result rounded to the nearest
  representable value, ties to the even significand. The type has room for magnitudes that
  no double has; the values the program meets are literals and results of operations, which
  are rounded.
\<close>

datatype double = NaN | Infinity bool | Finite bool rat

text \<open>\<open>floor_log2 q\<close> is the exponent of the binade of \<open>q > 0\<close>: \<open>2\<^sup>k \<le> q < 2\<^sup>k\<^sup>+\<^sup>1\<close>.\<close>

definition floor_log2 :: "rat \<Rightarrow> int" where
  "floor_log2 q =
     (let (a, b) = quotient_of q; k = bitlen a - bitlen b
      in if 2 powi k \<le> q then k else k - 1)"

definition round_half_even :: "rat \<Rightarrow> int" where
  "round_half_even x =
     (let f = \<lfloor>x\<rfloor>; r = x - of_int f
      in if r < 1 / 2 then f else if 1 / 2 < r then f + 1 else if even f then f else f + 1)"

text \<open>
  Rounding of an exact magnitude \<open>q \<ge> 0\<close>: the significand has 53 bits, the exponent does
  not go below \<open>-1022\<close> (below that the values are the multiples of \<open>2\<^sup>-\<^sup>1\<^sup>0\<^sup>7\<^sup>4\<close>), and a
  rounded value of \<open>2\<^sup>1\<^sup>0\<^sup>2\<^sup>4\<close> or more is an infinity.
\<close>

definition round_to_double :: "bool \<Rightarrow> rat \<Rightarrow> double" where
  "round_to_double s q =
     (if q = 0 then Finite s 0
      else
        let e = max (floor_log2 q) (- 1022);
            ulp = 2 powi (e - 52);
            v = of_int (round_half_even (q / ulp)) * ulp
        in if 2 powi 1024 \<le> v then Infinity s else Finite s v)"

text \<open>A numeric literal of the source denotes the double nearest to its decimal value.\<close>

definition double_of_rat :: "rat \<Rightarrow> double" where
  "double_of_rat q = round_to_double (q < 0) \<bar>q\<bar>"

text \<open>The integer square root, bit by bit from the top.\<close>

fun isqrt_bits :: "int \<Rightarrow> int \<Rightarrow> nat \<Rightarrow> int" where
  "isqrt_bits n r 0 = r"
| "isqrt_bits n r (Suc i) = isqrt_bits n (if (r + 2 ^ i)\<^sup>2 \<le> n then r + 2 ^ i else r) i"

definition isqrt :: "int \<Rightarrow> int" where
  "isqrt n = isqrt_bits n 0 (nat (bitlen n))"

text \<open>
  The square root of a magnitude \<open>q > 0\<close>, rounded: with \<open>ulp\<close> the spacing of the doubles
  in the binade of the root, the significand is the integer nearest to \<open>sqrt (q / ulp\<^sup>2)\<close>,
  found from the integer square root by comparing \<open>q / ulp\<^sup>2\<close> with the square of the
  midpoint.
\<close>

definition round_sqrt :: "rat \<Rightarrow> double" where
  "round_sqrt q =
     (let e = floor_log2 q div 2;
          ulp = 2 powi (e - 52);
          t = q / (ulp * ulp);
          n0 = isqrt \<lfloor>t\<rfloor>;
          h = (of_int n0 + 1 / 2)\<^sup>2;
          n = (if t < h then n0 else if h < t then n0 + 1 else if even n0 then n0 else n0 + 1)
      in Finite False (of_int n * ulp))"

definition signed :: "bool \<Rightarrow> rat \<Rightarrow> rat" where
  "signed s m = (if s then - m else m)"

text \<open>\<^verbatim>\<open>x + y\<close>. An exact sum of zero is \<open>+0\<close> unless both operands are negative.\<close>

fun js_add :: "double \<Rightarrow> double \<Rightarrow> double" where
  "js_add NaN _ = NaN"
| "js_add _ NaN = NaN"
| "js_add (Infinity s) (Infinity t) = (if s = t then Infinity s else NaN)"
| "js_add (Infinity s) (Finite _ _) = Infinity s"
| "js_add (Finite _ _) (Infinity t) = Infinity t"
| "js_add (Finite s m) (Finite t n) =
     (let v = signed s m + signed t n
      in if v = 0 then Finite (s \<and> t) 0 else round_to_double (v < 0) \<bar>v\<bar>)"

fun js_neg :: "double \<Rightarrow> double" where
  "js_neg NaN = NaN"
| "js_neg (Infinity s) = Infinity (\<not> s)"
| "js_neg (Finite s m) = Finite (\<not> s) m"

text \<open>\<^verbatim>\<open>x - y\<close>.\<close>

definition js_sub :: "double \<Rightarrow> double \<Rightarrow> double" where
  "js_sub x y = js_add x (js_neg y)"

text \<open>\<^verbatim>\<open>x * y\<close>.\<close>

fun js_mul :: "double \<Rightarrow> double \<Rightarrow> double" where
  "js_mul NaN _ = NaN"
| "js_mul _ NaN = NaN"
| "js_mul (Infinity s) (Infinity t) = Infinity (s \<noteq> t)"
| "js_mul (Infinity s) (Finite t n) = (if n = 0 then NaN else Infinity (s \<noteq> t))"
| "js_mul (Finite s m) (Infinity t) = (if m = 0 then NaN else Infinity (s \<noteq> t))"
| "js_mul (Finite s m) (Finite t n) = round_to_double (s \<noteq> t) (m * n)"

text \<open>\<^verbatim>\<open>x / y\<close>.\<close>

fun js_div :: "double \<Rightarrow> double \<Rightarrow> double" where
  "js_div NaN _ = NaN"
| "js_div _ NaN = NaN"
| "js_div (Infinity s) (Infinity t) = NaN"
| "js_div (Infinity s) (Finite t n) = Infinity (s \<noteq> t)"
| "js_div (Finite s m) (Infinity t) = Finite (s \<noteq> t) 0"
| "js_div (Finite s m) (Finite t n) =
     (if n = 0 then (if m = 0 then NaN else Infinity (s \<noteq> t))
      else round_to_double (s \<noteq> t) (m / n))"

text \<open>\<^verbatim>\<open>Math.sqrt(x)\<close>.\<close>

fun Math_sqrt :: "double \<Rightarrow> double" where
  "Math_sqrt NaN = NaN"
| "Math_sqrt (Infinity s) = (if s then NaN else Infinity False)"
| "Math_sqrt (Finite s m) = (if m = 0 then Finite s 0 else if s then NaN else round_sqrt m)"

text \<open>\<^verbatim>\<open>x > y\<close>: false when either side is \<open>NaN\<close>.\<close>

fun js_gt :: "double \<Rightarrow> double \<Rightarrow> bool" where
  "js_gt NaN _ = False"
| "js_gt _ NaN = False"
| "js_gt (Infinity s) (Infinity t) = (\<not> s \<and> t)"
| "js_gt (Infinity s) (Finite _ _) = (\<not> s)"
| "js_gt (Finite _ _) (Infinity t) = t"
| "js_gt (Finite s m) (Finite t n) = (signed t n < signed s m)"

text \<open>\<^verbatim>\<open>x === y\<close> on numbers: \<open>NaN\<close> equals nothing, the two zeros are equal.\<close>

fun js_strict_eq :: "double \<Rightarrow> double \<Rightarrow> bool" where
  "js_strict_eq NaN _ = False"
| "js_strict_eq _ NaN = False"
| "js_strict_eq (Infinity s) (Infinity t) = (s = t)"
| "js_strict_eq (Infinity s) (Finite _ _) = False"
| "js_strict_eq (Finite _ _) (Infinity t) = False"
| "js_strict_eq (Finite s m) (Finite t n) = (signed s m = signed t n)"

text \<open>
  \<^verbatim>\<open>Math.round(x)\<close>: the nearest integer, a half goes towards \<open>+\<infinity>\<close>; a result of zero
  keeps the sign of \<open>x\<close>.
\<close>

fun Math_round :: "double \<Rightarrow> double" where
  "Math_round NaN = NaN"
| "Math_round (Infinity s) = Infinity s"
| "Math_round (Finite s m) =
     (let r = \<lfloor>signed s m + 1 / 2\<rfloor>
      in if r = 0 then Finite s 0 else Finite (r < 0) (of_int \<bar>r\<bar>))"

section \<open>Similarity scorer\<close>

text \<open>
  An absent vector (\<^verbatim>\<open>null\<close> or \<^verbatim>\<open>undefined\<close>) is \<open>None\<close>; an array is never falsy. The
  two \<^verbatim>\<open>reduce\<close> calls accumulate from the left, starting at \<open>+0\<close>.
\<close>

definition cosineSimilarity :: "double list option \<Rightarrow> double list option \<Rightarrow> double" where
  "cosineSimilarity vecA vecB =
     (case vecA of None \<Rightarrow> Finite False 0 | Some a \<Rightarrow>
      (case vecB of None \<Rightarrow> Finite False 0 | Some b \<Rightarrow>
        if length a \<noteq> length b then Finite False 0
        else
          let dotProduct = foldl (\<lambda>sum (val, i). js_add sum (js_mul val (b ! i)))
                (Finite False 0) (zip a [0..<length a]);
              magnitudeA = Math_sqrt (foldl (\<lambda>sum val. js_add sum (js_mul val val))
                (Finite False 0) a);
              magnitudeB = Math_sqrt (foldl (\<lambda>sum val. js_add sum (js_mul val val))
                (Finite False 0) b)
          in if js_strict_eq magnitudeA (Finite False 0) \<or>
                js_strict_eq magnitudeB (Finite False 0)
             then Finite False 0
             else js_div dotProduct (js_mul magnitudeA magnitudeB)))"

section \<open>Document store\<close>

record metadata =
  title :: string
  category :: string
  totalChunks :: "nat option"

record chunk_doc =
  docId :: string
  chunkIndex :: nat
  text' :: string
  embedding :: "double list option"
  metadata :: metadata
  createdAt :: nat

text \<open>
  The collection \<^verbatim>\<open>documents\<close> in scan order. \<^verbatim>\<open>deleteMany\<close> removes the documents that
  match the filter, \<^verbatim>\<open>insertMany\<close> appends. The store is taken to be reachable.
\<close>

type_synonym collection = "chunk_doc list"

definition deleteMany :: "(chunk_doc \<Rightarrow> bool) \<Rightarrow> collection \<Rightarrow> collection" where
  "deleteMany matches coll = filter (\<lambda>d. \<not> matches d) coll"

definition insertMany :: "chunk_doc list \<Rightarrow> collection \<Rightarrow> collection" where
  "insertMany documents coll = coll @ documents"

text \<open>
  The embedding provider behind \<^verbatim>\<open>getEmbeddings\<close>: an error message when the request
  fails, otherwise the vectors of the response in order (possibly fewer than the texts).
\<close>

type_synonym provider = "string list \<Rightarrow> string + double list list"

text \<open>\<^verbatim>\<open>embeddings[idx]\<close>, which is \<^verbatim>\<open>undefined\<close> out of range.\<close>

definition at_index :: "'a list \<Rightarrow> nat \<Rightarrow> 'a option" where
  "at_index xs i = (if i < length xs then Some (xs ! i) else None)"

text \<open>\<^verbatim>\<open>x || d\<close> on an optional string: absent and empty are both falsy.\<close>

definition or_else :: "string option \<Rightarrow> string \<Rightarrow> string" where
  "or_else x d = (case x of None \<Rightarrow> d | Some s \<Rightarrow> if s = [] then d else s)"

section \<open>Ingestion\<close>

record request_metadata =
  req_title :: "string option"
  req_category :: "string option"

datatype ingest_response = IngestError nat string | IngestOk string nat

text \<open>
  The records of one document, \<^verbatim>\<open>chunks.map((chunkText, idx) => ({...}))\<close> in the handler
  of \<^verbatim>\<open>POST /ingest\<close>. \<open>now\<close> is the clock reading of \<^verbatim>\<open>new Date()\<close>.
\<close>

definition ingest_documents ::
  "string \<Rightarrow> nat \<Rightarrow> request_metadata \<Rightarrow> string list \<Rightarrow> double list list \<Rightarrow> chunk_doc list" where
  "ingest_documents documentId now req_meta chunks embeddings =
     map (\<lambda>(chunkText, idx).
       \<lparr>docId = documentId, chunkIndex = idx, text' = chunkText,
        embedding = at_index embeddings idx,
        metadata = \<lparr>title = or_else (req_title req_meta) documentId,
                    category = or_else (req_category req_meta) ''general'',
                    totalChunks = Some (length chunks)\<rparr>,
        createdAt = now\<rparr>) (zip chunks [0..<length chunks])"

text \<open>
  The handler of \<^verbatim>\<open>POST /ingest\<close>. The result is the response and the collection
  afterwards; \<open>None\<close> is a handler that does not return.
\<close>

definition ingest ::
  "provider \<Rightarrow> nat \<Rightarrow> string option \<Rightarrow> string option \<Rightarrow> request_metadata \<Rightarrow> collection
     \<Rightarrow> (ingest_response \<times> collection) option" where
  "ingest getEmbeddings now req_docId req_text req_meta coll =
     (if or_else req_docId [] = [] \<or> or_else req_text [] = []
      then Some (IngestError 400 ''Document ID and text are required'', coll)
      else
        let docId = or_else req_docId []; text = or_else req_text [] in
        case chunkText text 400 of
          None \<Rightarrow> None
        | Some chunks \<Rightarrow>
            if length chunks = 0 then Some (IngestError 400 ''No valid text found'', coll)
            else
              (case getEmbeddings chunks of
                 Inl message \<Rightarrow> Some (IngestError 500 message, coll)
               | Inr embeddings \<Rightarrow>
                   let coll1 = deleteMany (\<lambda>d. chunk_doc.docId d = docId) coll;
                       documents = ingest_documents docId now req_meta chunks embeddings
                   in Some (IngestOk docId (length chunks), insertMany documents coll1)))"

section \<open>Bulk load\<close>

record seed =
  seed_docId :: string
  seed_text :: string
  seed_metadata :: metadata

definition seed_doc :: "string \<Rightarrow> string \<Rightarrow> string \<Rightarrow> string \<Rightarrow> seed" where
  "seed_doc d t ti ca =
     \<lparr>seed_docId = d, seed_text = t,
      seed_metadata = \<lparr>title = ti, category = ca, totalChunks = None\<rparr>\<rparr>"

text \<open>
  The literal \<^verbatim>\<open>myData\<close>; each \<^verbatim>\<open>metadata\<close> object there has a title and a category and
  nothing else.
\<close>

definition myData :: "seed list" where
  "myData =
     [seed_doc ''csec-lab-1'' ''csec-lab is good environment'' ''CSEC Lab Environment'' ''academic'',
      seed_doc ''csec-lab-2'' ''csec-lab contains around 400 students'' ''CSEC Lab Student Count'' ''academic'',
      seed_doc ''csec-astu-1'' ''csec-astu has 4 division'' ''CSEC ASTU Divisions'' ''academic'',
      seed_doc ''csec-dev-1'' ''csec-dev has around 50 members'' ''CSEC Dev Members'' ''academic'',
      seed_doc ''general-1'' ''sky is blue'' ''General Fact'' ''general'',
      seed_doc ''personal-1'' ''abebe eats beso'' ''Personal Habit'' ''personal'',
      seed_doc ''location-1'' ''astu is found in adama'' ''ASTU Location'' ''location'',
      seed_doc ''location-2'' ''adama is a beautiful city'' ''Adama City'' ''location'',
      seed_doc ''location-3'' ''addis abeba is different from adama'' ''City Comparison'' ''location'',
      seed_doc ''csec-lab-3'' ''csec-lab has been created since 2023'' ''CSEC Lab Creation'' ''academic'']"

datatype load_response = LoadError nat string | LoadOk nat nat

text \<open>The \<^verbatim>\<open>for (const doc of myData)\<close> loop of \<^verbatim>\<open>POST /load-my-data\<close>.\<close>

fun load_loop ::
  "provider \<Rightarrow> nat \<Rightarrow> seed list \<Rightarrow> nat \<Rightarrow> collection \<Rightarrow> (load_response \<times> collection) option" where
  "load_loop getEmbeddings now [] total_chunks coll =
     Some (LoadOk (length myData) total_chunks, coll)"
| "load_loop getEmbeddings now (doc # rest) total_chunks coll =
     (case chunkText (seed_text doc) 400 of
        None \<Rightarrow> None
      | Some chunks \<Rightarrow>
          if length chunks = 0 then load_loop getEmbeddings now rest total_chunks coll
          else
            (case getEmbeddings chunks of
               Inl message \<Rightarrow> Some (LoadError 500 message, coll)
             | Inr embeddings \<Rightarrow>
                 let documents = map (\<lambda>(chunkText, idx).
                       \<lparr>docId = seed_docId doc, chunkIndex = idx, text' = chunkText,
                        embedding = at_index embeddings idx,
                        metadata = seed_metadata doc,
                        createdAt = now\<rparr>) (zip chunks [0..<length chunks])
                 in load_loop getEmbeddings now rest (total_chunks + length chunks)
                      (insertMany documents coll)))"

definition load_my_data ::
  "provider \<Rightarrow> nat \<Rightarrow> collection \<Rightarrow> (load_response \<times> collection) option" where
  "load_my_data getEmbeddings now coll =
     load_loop getEmbeddings now myData 0 (deleteMany (\<lambda>d. True) coll)"

section \<open>Query\<close>

datatype query_response = QueryError nat string | QueryOk string double

definition no_documents_answer :: string where
  "no_documents_answer =
     ''I don't have any information in my database yet. Please add some documents first.''"

definition refusal_answer :: string where
  "refusal_answer =
     ''I'm sorry, but I don't have information about that in my knowledge base. Please ask me something about the documents you've provided.''"

definition hedge_prefix :: string where
  "hedge_prefix = ''Based on my knowledge: ''"

text \<open>
  \<^verbatim>\<open>allDocs.map(doc => ({...doc, score: cosineSimilarity(queryEmbedding, doc.embedding || [])}))\<close>:
  a scored document is the pair of the document and its score.
\<close>

definition scoreDocs :: "double list option \<Rightarrow> collection \<Rightarrow> (chunk_doc \<times> double) list" where
  "scoreDocs queryEmbedding allDocs =
     map (\<lambda>doc. (doc, cosineSimilarity queryEmbedding
                         (case embedding doc of None \<Rightarrow> Some [] | Some e \<Rightarrow> Some e))) allDocs"

text \<open>The comparator \<^verbatim>\<open>(a, b) => b.score - a.score\<close>.\<close>

definition by_score :: "chunk_doc \<times> double \<Rightarrow> chunk_doc \<times> double \<Rightarrow> double" where
  "by_score a b = js_sub (snd b) (snd a)"

text \<open>
  \<^verbatim>\<open>Array.prototype.sort(comparefn)\<close> as the language specifies it. When \<open>comparefn\<close> is a
  consistent comparison function for the elements (its value is never \<open>NaN\<close>, and the
  relations "negative", "zero", "positive" it induces are reflexive, symmetric and
  transitive as required) the result is the stable sorted arrangement, which the stable
  insertion below computes: an element goes before the first one that it does not compare
  greater than. Otherwise the order is implementation-defined: it is whatever the engine
  produces, and the engine is a parameter.
\<close>

definition consistent_comparator :: "('a \<Rightarrow> 'a \<Rightarrow> double) \<Rightarrow> 'a list \<Rightarrow> bool" where
  "consistent_comparator comparefn xs =
     (let lt = (\<lambda>a b. js_gt (Finite False 0) (comparefn a b));
          eq = (\<lambda>a b. js_strict_eq (comparefn a b) (Finite False 0));
          gt = (\<lambda>a b. js_gt (comparefn a b) (Finite False 0))
      in list_all (\<lambda>a. list_all (\<lambda>b. list_all (\<lambda>c.
           comparefn a b \<noteq> NaN \<and> eq a a \<and>
           (if eq a b then eq b a else True) \<and>
           (if eq a b \<and> eq b c then eq a c else True) \<and>
           (if lt a b \<and> lt b c then lt a c else True) \<and>
           (if gt a b \<and> gt b c then gt a c else True)) xs) xs) xs)"

fun insert_sorted :: "('a \<Rightarrow> 'a \<Rightarrow> double) \<Rightarrow> 'a \<Rightarrow> 'a list \<Rightarrow> 'a list" where
  "insert_sorted comparefn x [] = [x]"
| "insert_sorted comparefn x (y # ys) =
     (if js_gt (comparefn x y) (Finite False 0) then y # insert_sorted comparefn x ys
      else x # y # ys)"

definition insertion_sort :: "('a \<Rightarrow> 'a \<Rightarrow> double) \<Rightarrow> 'a list \<Rightarrow> 'a list" where
  "insertion_sort comparefn xs = foldr (insert_sorted comparefn) xs []"

type_synonym 'a engine = "('a \<Rightarrow> 'a \<Rightarrow> double) \<Rightarrow> 'a list \<Rightarrow> 'a list"

definition Array_sort :: "'a engine \<Rightarrow> ('a \<Rightarrow> 'a \<Rightarrow> double) \<Rightarrow> 'a list \<Rightarrow> 'a list" where
  "Array_sort engine comparefn xs =
     (if consistent_comparator comparefn xs then insertion_sort comparefn xs
      else engine comparefn xs)"

text \<open>
  An engine that takes a \<open>NaN\<close> from the comparator for \<open>+0\<close>, as the \<open>SortCompare\<close>
  operation of the language specification does, and sorts by the same stable insertion.
  On an array of two elements and the comparator above this is the order of V8, the engine
  of Node.js, which exchanges the two when \<^verbatim>\<open>comparefn(second, first)\<close> is negative:
  \<^verbatim>\<open>a.score - b.score\<close> is negative exactly when \<^verbatim>\<open>b.score - a.score\<close> is positive, and
  both are \<open>NaN\<close> together.
\<close>

definition insertion_engine :: "'a engine" where
  "insertion_engine comparefn xs = insertion_sort comparefn xs"

text \<open>\<^verbatim>\<open>scoredDocs.sort((a, b) => b.score - a.score)\<close>, then \<^verbatim>\<open>slice(0, 3)\<close>.\<close>

definition topDocs ::
  "(chunk_doc \<times> double) engine \<Rightarrow> double list option \<Rightarrow> collection
     \<Rightarrow> (chunk_doc \<times> double) list" where
  "topDocs engine queryEmbedding allDocs =
     take 3 (Array_sort engine by_score (scoreDocs queryEmbedding allDocs))"

text \<open>
  The handler of \<^verbatim>\<open>POST /query\<close> from the scan of the collection on. The confidence of
  the response is the number handed to \<^verbatim>\<open>res.json\<close>.
\<close>

definition rank_and_answer ::
  "(chunk_doc \<times> double) engine \<Rightarrow> double list option \<Rightarrow> collection \<Rightarrow> query_response" where
  "rank_and_answer engine queryEmbedding allDocs =
     (if length allDocs = 0 then QueryOk no_documents_answer (Finite False 0)
      else
        (case topDocs engine queryEmbedding allDocs of
           [] \<Rightarrow> QueryOk refusal_answer
                  (Math_round (js_mul (Finite False 0) (double_of_rat 100)))
         | bestMatch # _ \<Rightarrow>
             if js_gt (snd bestMatch) (double_of_rat (7 / 10))
             then QueryOk (text' (fst bestMatch))
                    (Math_round (js_mul (snd bestMatch) (double_of_rat 100)))
             else if js_gt (snd bestMatch) (double_of_rat (6 / 10))
             then QueryOk (hedge_prefix @ text' (fst bestMatch))
                    (Math_round (js_mul (snd bestMatch) (double_of_rat 100)))
             else QueryOk refusal_answer
                    (Math_round (js_mul (Finite False 0) (double_of_rat 100)))))"

definition query ::
  "(chunk_doc \<times> double) engine \<Rightarrow> provider \<Rightarrow> string option \<Rightarrow> collection
     \<Rightarrow> query_response" where
  "query engine getEmbeddings q coll =
     (if or_else q [] = [] then QueryError 400 ''Question is required''
      else
        (case getEmbeddings [or_else q []] of
           Inl message \<Rightarrow> QueryError 500 message
         | Inr embeddings \<Rightarrow> rank_and_answer engine (at_index embeddings 0) coll))"

section \<open>Properties of the chunker\<close>

subsection \<open>Termination\<close>

lemma chunk_end_advances:
  assumes "1 \<le> chunkSize"
  shows "start < chunk_end cleanText chunkSize start"
proof -
  have pos: "(0::rat) < of_int chunkSize * 0.6"
    using assms by simp
  have "sentenceEnd > start"
    if "(of_int sentenceEnd :: rat) > of_int start + of_int chunkSize * 0.6" for sentenceEnd
  proof -
    from that pos have "(of_int start :: rat) < of_int sentenceEnd" by linarith
    then show ?thesis by simp
  qed
  then show ?thesis
    using assms unfolding chunk_end_def Let_def by (auto simp: less_imp_le add.commute intro: less_le_trans)
qed

lemma chunk_loop_returns:
  assumes "1 \<le> chunkSize"
  shows "\<exists>result. chunk_loop cleanText chunkSize start chunks = Some result"
proof (induction "nat (int (length cleanText) - start)" arbitrary: start chunks rule: less_induct)
  case less
  show ?case
  proof (cases "start < int (length cleanText)")
    case False
    then show ?thesis by (subst chunk_loop.simps) simp
  next
    case True
    have adv: "start < chunk_end cleanText chunkSize start"
      by (rule chunk_end_advances [OF assms])
    with True have "nat (int (length cleanText) - chunk_end cleanText chunkSize start)
        < nat (int (length cleanText) - start)" by linarith
    from less [OF this] show ?thesis
      using True by (subst chunk_loop.simps) simp
  qed
qed

lemma lastIndexOf_ab: "lastIndexOf ''ab'' CHR ''.'' position = - 1"
proof -
  have "nat (min (max position 0) 1) = 0 \<or> nat (min (max position 0) 1) = Suc 0"
    by linarith
  then show ?thesis
    by (auto simp: lastIndexOf_def)
qed

lemma chunk_end_ab:
  assumes "chunkSize \<le> 0" "start < 2"
  shows "chunk_end ''ab'' chunkSize start < 2"
  using assms by (simp add: chunk_end_def Let_def lastIndexOf_ab)

lemma chunk_loop_ab_diverges_aux:
  assumes "chunk_loop cleanText chunkSize start chunks = Some result"
  shows "cleanText = ''ab'' \<longrightarrow> chunkSize \<le> 0 \<longrightarrow> 2 \<le> start"
proof (rule chunk_loop.raw_induct
    [where P = "\<lambda>t c s ch r. t = ''ab'' \<longrightarrow> c \<le> 0 \<longrightarrow> 2 \<le> s", OF _ assms])
  fix f :: "string \<Rightarrow> int \<Rightarrow> int \<Rightarrow> string list \<Rightarrow> string list option"
  fix t c s ch r
  assume IH: "\<And>t c s ch r. f t c s ch = Some r \<Longrightarrow> t = ''ab'' \<longrightarrow> c \<le> 0 \<longrightarrow> 2 \<le> s"
  assume step: "(if s < int (length t)
      then f t c (chunk_end t c s)
            (let chunk = trim (slice t s (chunk_end t c s))
             in if 0 < length chunk then ch @ [chunk] else ch)
      else Some ch) = Some r"
  show "t = ''ab'' \<longrightarrow> c \<le> 0 \<longrightarrow> 2 \<le> s"
  proof (intro impI)
    assume t: "t = ''ab''" and c: "c \<le> 0"
    show "2 \<le> s"
    proof (rule ccontr)
      assume "\<not> 2 \<le> s"
      then have s: "s < 2" by simp
      with step t have "f t c (chunk_end t c s)
          (let chunk = trim (slice t s (chunk_end t c s))
           in if 0 < length chunk then ch @ [chunk] else ch) = Some r"
        by simp
      from IH [OF this] t c have "2 \<le> chunk_end ''ab'' c s" by simp
      with chunk_end_ab [OF c s] show False by simp
    qed
  qed
qed

lemma chunk_loop_ab_diverges:
  assumes "chunkSize \<le> 0"
  shows "chunk_loop ''ab'' chunkSize 0 [] = None"
proof (cases "chunk_loop ''ab'' chunkSize 0 []")
  case None
  then show ?thesis .
next
  case (Some result)
  from chunk_loop_ab_diverges_aux [OF this] assms show ?thesis by simp
qed

lemma clean_ab: "trim (collapse_ws ''ab'') = ''ab''"
  by code_simp

text \<open>
  Claim C10. For every string and every \<open>chunkSize \<ge> 1\<close>, \<open>chunkText\<close> terminates: the
  cut position of each iteration is strictly greater than the chunk start, so the loop
  advances. For every \<open>chunkSize \<le> 0\<close> this fails: on the text \<open>ab\<close> the loop runs forever.
\<close>

theorem chunkText_terminates:
  "(1 \<le> chunkSize \<longrightarrow>
      (\<exists>chunks. chunkText text chunkSize = Some chunks) \<and>
      (\<forall>cleanText start. start < chunk_end cleanText chunkSize start)) \<and>
   (chunkSize \<le> 0 \<longrightarrow> chunkText ''ab'' chunkSize = None)"
proof (intro conjI impI allI)
  assume c: "1 \<le> chunkSize"
  show "\<exists>chunks. chunkText text chunkSize = Some chunks"
    using chunk_loop_returns [OF c] by (simp add: chunkText_def Let_def)
  show "start < chunk_end cleanText chunkSize start" for cleanText start
    by (rule chunk_end_advances [OF c])
next
  assume c: "chunkSize \<le> 0"
  then show "chunkText ''ab'' chunkSize = None"
    using chunk_loop_ab_diverges [OF c] unfolding chunkText_def clean_ab by simp
qed

theorem chunkText_terminates_witness:
  "chunkText ''a.b c'' 2 = Some [''a.'', ''b'', ''c''] \<and> (0::int) < chunk_end ''a.b c'' 2 0
   \<and> chunkText ''ab'' 0 = None"
proof -
  have v: "chunkText ''a.b c'' 2 = Some [''a.'', ''b'', ''c'']" by code_simp
  show ?thesis
    using chunkText_terminates [of 2 "''a.b c''"] chunkText_terminates [of 0 "''a.b c''"] v
    by simp
qed

subsection \<open>The cut position\<close>

lemma lastIndexOf_from_found:
  assumes "p \<le> k" "s ! p = c" "\<forall>j. p < j \<and> j \<le> k \<longrightarrow> s ! j \<noteq> c"
  shows "lastIndexOf_from s c k = int p"
  using assms
proof (induction k)
  case 0
  then show ?case by simp
next
  case (Suc k)
  show ?case
  proof (cases "p = Suc k")
    case True
    with Suc.prems show ?thesis by simp
  next
    case False
    with Suc.prems have "p \<le> k" by simp
    moreover from Suc.prems False have "s ! Suc k \<noteq> c" by simp
    ultimately show ?thesis using Suc by simp
  qed
qed

lemma lastIndexOf_from_none:
  assumes "\<forall>j \<le> k. s ! j \<noteq> c"
  shows "lastIndexOf_from s c k = - 1"
  using assms by (induction k) simp_all

lemma lastIndexOf_nearest:
  assumes "0 \<le> boundary" "boundary < int (length s)" "nearest_period s boundary p"
  shows "lastIndexOf s CHR ''.'' boundary = p"
proof -
  from assms have k: "nat (min (max boundary 0) (int (length s) - 1)) = nat boundary"
    by simp
  from assms have ne: "s \<noteq> []" by auto
  have a: "nat p \<le> nat boundary" using assms by (auto simp: nearest_period_def)
  have b: "s ! nat p = CHR ''.''" using assms by (simp add: nearest_period_def)
  have c: "\<forall>j. nat p < j \<and> j \<le> nat boundary \<longrightarrow> s ! j \<noteq> CHR ''.''"
  proof (intro allI impI)
    fix j assume j: "nat p < j \<and> j \<le> nat boundary"
    with assms have "int j \<in> set [p + 1..boundary]" by (auto simp: nearest_period_def)
    with assms have "s ! nat (int j) \<noteq> CHR ''.''" unfolding nearest_period_def by blast
    then show "s ! j \<noteq> CHR ''.''" by simp
  qed
  from lastIndexOf_from_found [OF a b c] assms show ?thesis
    by (simp add: lastIndexOf_def ne k nearest_period_def)
qed

lemma lastIndexOf_no_period:
  assumes "0 \<le> boundary" "boundary < int (length s)"
    "\<forall>q \<in> set [0..boundary]. s ! nat q \<noteq> CHR ''.''"
  shows "lastIndexOf s CHR ''.'' boundary = - 1"
proof -
  from assms have k: "nat (min (max boundary 0) (int (length s) - 1)) = nat boundary"
    by simp
  from assms have ne: "s \<noteq> []" by auto
  have "\<forall>j \<le> nat boundary. s ! j \<noteq> CHR ''.''"
  proof (intro allI impI)
    fix j assume "j \<le> nat boundary"
    with assms have "int j \<in> set [0..boundary]" by auto
    with assms have "s ! nat (int j) \<noteq> CHR ''.''" by blast
    then show "s ! j \<noteq> CHR ''.''" by simp
  qed
  from lastIndexOf_from_none [OF this] show ?thesis
    by (simp add: lastIndexOf_def ne k)
qed

lemma nearest_period_extend:
  assumes "nearest_period s (boundary - 1) p" "s ! nat boundary \<noteq> CHR ''.''"
  shows "nearest_period s boundary p"
proof -
  have "s ! nat q \<noteq> CHR ''.''" if "q \<in> set [p + 1..boundary]" for q
  proof (cases "q = boundary")
    case True
    with assms(2) show ?thesis by simp
  next
    case False
    with that have "q \<in> set [p + 1..boundary - 1]" by auto
    with assms(1) show ?thesis unfolding nearest_period_def by blast
  qed
  moreover from assms(1) have "0 \<le> p" "p \<le> boundary" "s ! nat p = CHR ''.''"
    by (auto simp: nearest_period_def)
  ultimately show ?thesis by (simp add: nearest_period_def)
qed

text \<open>
  Claim C3, as amended. When the proposed boundary \<open>start + chunkSize\<close> is strictly before
  the end of the text (and the character at the boundary index itself is not a period), the
  backward search finds the nearest period before the boundary, and the cut is taken just
  after that period if the period's offset from the chunk start is strictly greater than
  \<open>0.6 \<times> chunkSize\<close>; otherwise (offset equal to \<open>0.6 \<times> chunkSize\<close> included, and when
  there is no period) the cut is the raw boundary.
\<close>

theorem period_cut_rule:
  assumes "0 \<le> start" "0 \<le> chunkSize" "start + chunkSize < int (length cleanText)"
    and "cleanText ! nat (start + chunkSize) \<noteq> CHR ''.''"
  shows "(nearest_period cleanText (start + chunkSize - 1) p \<longrightarrow>
            chunk_end cleanText chunkSize start =
              (if (of_int (p - start) :: rat) > of_int chunkSize * 0.6 then p + 1
               else start + chunkSize)) \<and>
         ((\<forall>q \<in> set [0..start + chunkSize - 1]. cleanText ! nat q \<noteq> CHR ''.'') \<longrightarrow>
            chunk_end cleanText chunkSize start = start + chunkSize)"
proof (intro conjI impI)
  have b: "0 \<le> start + chunkSize" using assms by simp
  {
    assume "nearest_period cleanText (start + chunkSize - 1) p"
    then have "nearest_period cleanText (start + chunkSize) p"
      using assms(4) by (rule nearest_period_extend)
    from lastIndexOf_nearest [OF b assms(3) this]
    show "chunk_end cleanText chunkSize start =
              (if (of_int (p - start) :: rat) > of_int chunkSize * 0.6 then p + 1
               else start + chunkSize)"
      using assms(3) by (simp add: chunk_end_def Let_def algebra_simps)
  }
  {
    assume n: "\<forall>q \<in> set [0..start + chunkSize - 1]. cleanText ! nat q \<noteq> CHR ''.''"
    have "\<forall>q \<in> set [0..start + chunkSize]. cleanText ! nat q \<noteq> CHR ''.''"
    proof
      fix q assume "q \<in> set [0..start + chunkSize]"
      then have "q = start + chunkSize \<or> q \<in> set [0..start + chunkSize - 1]" by auto
      with n assms(4) show "cleanText ! nat q \<noteq> CHR ''.''" by blast
    qed
    from lastIndexOf_no_period [OF b assms(3) this]
    have "lastIndexOf cleanText CHR ''.'' (start + chunkSize) = - 1" .
    moreover have "\<not> (- 1 :: rat) > of_int start + of_int chunkSize * 0.6"
      using assms by simp
    ultimately show "chunk_end cleanText chunkSize start = start + chunkSize"
      using assms(3) by (simp add: chunk_end_def Let_def)
  }
qed

theorem period_cut_rule_witness:
  "nearest_period ''abcdefg.ijklm'' 9 7 \<and> chunk_end ''abcdefg.ijklm'' 10 0 = 8 \<and>
   nearest_period ''abc.efghij'' 4 3 \<and> chunk_end ''abc.efghij'' 5 0 = 5 \<and>
   chunk_end ''abcdefghij'' 5 0 = 5"
proof -
  have n1: "nearest_period ''abcdefg.ijklm'' (0 + 10 - 1) 7" by code_simp
  have n2: "nearest_period ''abc.efghij'' (0 + 5 - 1) 3" by code_simp
  have n3: "\<forall>q \<in> set [0..0 + 5 - 1]. ''abcdefghij'' ! nat q \<noteq> CHR ''.''" by code_simp
  show ?thesis
    using period_cut_rule [of 0 10 "''abcdefg.ijklm''" 7]
      period_cut_rule [of 0 5 "''abc.efghij''" 3]
      period_cut_rule [of 0 5 "''abcdefghij''" 0] n1 n2 n3
    by simp
qed

text \<open>
  Claim C3 as stated takes the period cut at an offset of exactly \<open>0.6 \<times> chunkSize\<close>. With
  \<open>chunkSize = 5\<close> and the period at offset 3 the code cuts at 5, not at 4.
\<close>

theorem period_cut_boundary_counterexample:
  "(0::int) + 5 < int (length ''abc.efghij'') \<and>
   nearest_period ''abc.efghij'' (0 + 5) 3 \<and>
   (of_int (3 - 0) :: rat) \<ge> of_int 5 * 0.6 \<and>
   chunk_end ''abc.efghij'' 5 0 = 5 \<and>
   chunk_end ''abc.efghij'' 5 0 \<noteq> 3 + 1"
proof -
  have "nearest_period ''abc.efghij'' (0 + 5) 3" by code_simp
  moreover have "chunk_end ''abc.efghij'' 5 0 = 5" by code_simp
  ultimately show ?thesis by simp
qed

subsection \<open>Chunk length\<close>

text \<open>
  Claim C2 bounds every chunk by \<open>chunkSize\<close>. The backward search starts at the index
  \<open>start + chunkSize\<close> itself, so a period there is taken and the chunk has
  \<open>chunkSize + 1\<close> characters: 400 letters followed by a period and more text give a first
  chunk of 401 characters at the default size.
\<close>

theorem chunk_exceeds_chunkSize:
  "chunkText (replicate 400 CHR ''a'' @ ''.b'') 400 =
     Some [replicate 400 CHR ''a'' @ ''.'', ''b''] \<and>
   length (replicate 400 CHR ''a'' @ ''.'') = 401"
proof -
  have "chunkText (replicate 400 CHR ''a'' @ ''.b'') 400 =
     Some [replicate 400 CHR ''a'' @ ''.'', ''b'']" by code_simp
  then show ?thesis by simp
qed

text \<open>
  The excess is at most one character: for \<open>chunkSize \<ge> 1\<close> no chunk is longer than
  \<open>chunkSize + 1\<close>.
\<close>

lemma lastIndexOf_from_le: "lastIndexOf_from s c k \<le> int k"
  by (induction k) auto

lemma lastIndexOf_le:
  assumes "0 \<le> position"
  shows "lastIndexOf s c position \<le> position"
proof (cases "s = []")
  case True
  with assms show ?thesis by (simp add: lastIndexOf_def)
next
  case False
  have "lastIndexOf_from s c (nat (min (max position 0) (int (length s) - 1)))
      \<le> int (nat (min (max position 0) (int (length s) - 1)))"
    by (rule lastIndexOf_from_le)
  also have "\<dots> \<le> position" using assms False by simp
  finally show ?thesis using False by (simp add: lastIndexOf_def)
qed

lemma chunk_end_le:
  assumes "0 \<le> start" "0 \<le> chunkSize"
  shows "chunk_end cleanText chunkSize start \<le> start + chunkSize + 1"
proof -
  have "0 \<le> start + chunkSize" using assms by simp
  from lastIndexOf_le [OF this, of cleanText "CHR ''.''"] show ?thesis
    by (simp add: chunk_end_def Let_def)
qed

lemma length_trim_le: "length (trim s) \<le> length s"
proof -
  have "length (trim s) = length (dropWhile isWhiteSpace (rev (dropWhile isWhiteSpace s)))"
    by (simp add: trim_def)
  also have "\<dots> \<le> length (rev (dropWhile isWhiteSpace s))"
    by (rule length_dropWhile_le)
  also have "\<dots> = length (dropWhile isWhiteSpace s)" by simp
  also have "\<dots> \<le> length s" by (rule length_dropWhile_le)
  finally show ?thesis .
qed

lemma length_slice_le:
  assumes "0 \<le> start" "start \<le> end"
  shows "int (length (slice s start end)) \<le> end - start"
  using assms by (auto simp: slice_def Let_def)

lemma chunk_loop_bound:
  assumes "1 \<le> chunkSize"
  shows "0 \<le> start \<Longrightarrow> \<forall>c \<in> set chunks. int (length c) \<le> chunkSize + 1 \<Longrightarrow>
    chunk_loop cleanText chunkSize start chunks = Some result \<Longrightarrow>
    \<forall>c \<in> set result. int (length c) \<le> chunkSize + 1"
proof (induction "nat (int (length cleanText) - start)" arbitrary: start chunks rule: less_induct)
  case less
  show ?case
  proof (cases "start < int (length cleanText)")
    case False
    with less.prems(3) have "result = chunks" by (subst (asm) chunk_loop.simps) simp
    with less.prems(2) show ?thesis by simp
  next
    case True
    let ?e = "chunk_end cleanText chunkSize start"
    let ?chunk = "trim (slice cleanText start ?e)"
    let ?chunks = "if length ?chunk > 0 then chunks @ [?chunk] else chunks"
    have adv: "start < ?e" by (rule chunk_end_advances [OF assms])
    have le: "?e \<le> start + chunkSize + 1"
      using chunk_end_le [of start chunkSize cleanText] less.prems(1) assms by simp
    have "int (length ?chunk) \<le> int (length (slice cleanText start ?e))"
      using length_trim_le [of "slice cleanText start ?e"] by simp
    also have "\<dots> \<le> ?e - start"
      using length_slice_le [of start ?e cleanText] less.prems(1) adv by simp
    finally have c: "int (length ?chunk) \<le> chunkSize + 1" using le by simp
    have inv: "\<forall>c \<in> set ?chunks. int (length c) \<le> chunkSize + 1"
      using less.prems(2) c by auto
    have m: "nat (int (length cleanText) - ?e) < nat (int (length cleanText) - start)"
      using True adv by linarith
    have pos: "0 \<le> ?e" using less.prems(1) adv by simp
    have step: "chunk_loop cleanText chunkSize ?e ?chunks = Some result"
      using less.prems(3) True by (subst (asm) chunk_loop.simps) (simp add: Let_def)
    from less.hyps [OF m pos inv step] show ?thesis .
  qed
qed

lemma chunk_length_bound:
  assumes "1 \<le> chunkSize" "chunkText text chunkSize = Some chunks"
  shows "\<forall>c \<in> set chunks. int (length c) \<le> chunkSize + 1"
proof (cases "text = [] \<or> int (length (trim (collapse_ws text))) \<le> chunkSize")
  case True
  with assms show ?thesis by (auto simp: chunkText_def Let_def split: if_splits)
next
  case False
  with assms(2) have "chunk_loop (trim (collapse_ws text)) chunkSize 0 [] = Some chunks"
    by (simp add: chunkText_def Let_def)
  from chunk_loop_bound [OF assms(1) _ _ this] show ?thesis by simp
qed

section \<open>Properties of the numbers\<close>

subsection \<open>Rounding\<close>

lemma floor_log2_unique:
  fixes q :: rat
  assumes "2 powi j \<le> q" "q < 2 powi (j + 1)" "2 powi k \<le> q" "q < 2 powi (k + 1)"
  shows "j = k"
proof (rule ccontr)
  assume "j \<noteq> k"
  then consider "j + 1 \<le> k" | "k + 1 \<le> j" by linarith
  then show False
  proof cases
    case 1
    then have "(2 :: rat) powi (j + 1) \<le> 2 powi k" by (intro power_int_increasing) simp_all
    with assms show False by linarith
  next
    case 2
    then have "(2 :: rat) powi (k + 1) \<le> 2 powi j" by (intro power_int_increasing) simp_all
    with assms show False by linarith
  qed
qed

lemma bitlen_powi:
  assumes "0 < a"
  shows "(2 :: rat) powi (bitlen a - 1) \<le> of_int a \<and> of_int a < (2 :: rat) powi bitlen a"
proof -
  from assms have ge: "1 \<le> bitlen a" by (auto simp: bitlen_alt_def)
  from bitlen_bounds [OF assms] have "2 ^ nat (bitlen a - 1) \<le> a" and "a < 2 ^ nat (bitlen a)"
    by simp_all
  then have "(of_int (2 ^ nat (bitlen a - 1)) :: rat) \<le> of_int a"
    and "(of_int a :: rat) < of_int (2 ^ nat (bitlen a))"
    by (simp_all only: of_int_le_iff of_int_less_iff)
  with ge show ?thesis by (simp add: power_int_def)
qed

lemma floor_log2_bounds:
  assumes "0 < q"
  shows "2 powi floor_log2 q \<le> q \<and> q < 2 powi (floor_log2 q + 1)"
proof -
  obtain a b where ab: "quotient_of q = (a, b)" by (cases "quotient_of q")
  then have b: "0 < b" by (rule quotient_of_denom_pos)
  from ab have q: "q = of_int a / of_int b" by (rule quotient_of_div)
  with assms b have a: "0 < a" by (simp add: zero_less_divide_iff)
  let ?k = "bitlen a - bitlen b"
  from bitlen_powi [OF a] have a1: "(2 :: rat) powi (bitlen a - 1) \<le> of_int a"
    and a2: "of_int a < (2 :: rat) powi bitlen a" by simp_all
  from bitlen_powi [OF b] have b1: "(2 :: rat) powi (bitlen b - 1) \<le> of_int b"
    and b2: "of_int b < (2 :: rat) powi bitlen b" by simp_all
  have bpos: "(0 :: rat) < of_int b" using b by simp
  have "2 powi (?k - 1) * of_int b \<le> 2 powi (?k - 1) * (2 :: rat) powi bitlen b"
    using b2 by (intro mult_left_mono) simp_all
  also have "\<dots> = 2 powi (bitlen a - 1)"
    by (simp add: power_int_add [symmetric])
  also have "\<dots> \<le> of_int a" by (rule a1)
  finally have lo: "2 powi (?k - 1) \<le> q"
    unfolding q using bpos by (simp add: pos_le_divide_eq)
  have "of_int a < (2 :: rat) powi bitlen a" by (rule a2)
  also have "\<dots> = 2 powi (?k + 1) * 2 powi (bitlen b - 1)"
    by (simp add: power_int_add [symmetric])
  also have "\<dots> \<le> 2 powi (?k + 1) * of_int b"
    using b1 by (intro mult_left_mono) simp_all
  finally have hi: "q < 2 powi (?k + 1)"
    unfolding q using bpos by (simp add: pos_divide_less_eq)
  show ?thesis
  proof (cases "(2 :: rat) powi ?k \<le> q")
    case True
    with hi ab show ?thesis by (simp add: floor_log2_def Let_def)
  next
    case False
    with lo ab show ?thesis by (simp add: floor_log2_def Let_def not_le)
  qed
qed

lemma floor_log2_eq:
  assumes "2 powi k \<le> q" "q < 2 powi (k + 1)"
  shows "floor_log2 q = k"
proof -
  have "(0 :: rat) < 2 powi k" by simp
  with assms have "0 < q" by linarith
  from floor_log2_bounds [OF this] assms show ?thesis
    by (intro floor_log2_unique [of _ q]) simp_all
qed

lemma isqrt_bits_bounds:
  assumes "0 \<le> r" "r\<^sup>2 \<le> n" "n < (r + 2 ^ i)\<^sup>2"
  shows "0 \<le> isqrt_bits n r i \<and> (isqrt_bits n r i)\<^sup>2 \<le> n \<and> n < (isqrt_bits n r i + 1)\<^sup>2"
  using assms
proof (induction i arbitrary: r)
  case 0
  then show ?case by simp
next
  case (Suc i)
  show ?case
  proof (cases "(r + 2 ^ i)\<^sup>2 \<le> n")
    case True
    have "r + 2 ^ i + 2 ^ i = r + 2 ^ Suc i" by simp
    with Suc.prems(3) have "n < (r + 2 ^ i + 2 ^ i)\<^sup>2" by (simp only:)
    with Suc.IH [of "r + 2 ^ i"] True Suc.prems(1) show ?thesis by simp
  next
    case False
    with Suc.IH [of r] Suc.prems show ?thesis by simp
  qed
qed

lemma isqrt_bounds:
  assumes "0 \<le> n"
  shows "0 \<le> isqrt n \<and> (isqrt n)\<^sup>2 \<le> n \<and> n < (isqrt n + 1)\<^sup>2"
proof (cases "n = 0")
  case True
  then show ?thesis by (simp add: isqrt_def)
next
  case False
  with assms have pos: "0 < n" by simp
  from bitlen_bounds [OF pos] have "n < 2 ^ nat (bitlen n)" by simp
  also have "\<dots> \<le> (2 ^ nat (bitlen n))\<^sup>2"
    by (simp add: power2_eq_square self_le_power)
  finally have "n < (0 + 2 ^ nat (bitlen n))\<^sup>2" by simp
  from isqrt_bits_bounds [OF _ _ this] assms show ?thesis by (simp add: isqrt_def)
qed

lemma isqrt_eq:
  assumes "0 \<le> r" "r\<^sup>2 \<le> n" "n < (r + 1)\<^sup>2"
  shows "isqrt n = r"
proof -
  from assms have n: "0 \<le> n" by (meson order_trans zero_le_power2)
  from isqrt_bounds [OF n] have i: "0 \<le> isqrt n" "(isqrt n)\<^sup>2 \<le> n" "n < (isqrt n + 1)\<^sup>2"
    by simp_all
  have "\<not> isqrt n + 1 \<le> r"
  proof
    assume "isqrt n + 1 \<le> r"
    with i(1) have "(isqrt n + 1)\<^sup>2 \<le> r\<^sup>2" by (intro power_mono) simp_all
    with i(3) assms(2) show False by linarith
  qed
  moreover have "\<not> r + 1 \<le> isqrt n"
  proof
    assume "r + 1 \<le> isqrt n"
    with assms(1) have "(r + 1)\<^sup>2 \<le> (isqrt n)\<^sup>2" by (intro power_mono) simp_all
    with i(2) assms(3) show False by linarith
  qed
  ultimately show ?thesis by linarith
qed

lemma round_half_even_eq:
  assumes "of_int n - 1 / 2 < x" "x < of_int n + 1 / 2"
  shows "round_half_even x = n"
proof -
  have "\<lfloor>x\<rfloor> = n \<or> \<lfloor>x\<rfloor> = n - 1"
  proof -
    have "x < of_int (n + 1)" using assms(2) by simp
    then have "\<lfloor>x\<rfloor> < n + 1" by (simp only: floor_less_iff)
    moreover have "of_int (n - 1) \<le> x" using assms(1) by simp
    then have "n - 1 \<le> \<lfloor>x\<rfloor>" by (simp only: le_floor_iff)
    ultimately show ?thesis by linarith
  qed
  then show ?thesis
  proof
    assume f: "\<lfloor>x\<rfloor> = n"
    with assms(2) show ?thesis by (simp add: round_half_even_def Let_def)
  next
    assume f: "\<lfloor>x\<rfloor> = n - 1"
    with assms(1) show ?thesis by (simp add: round_half_even_def Let_def)
  qed
qed

lemma round_to_double_eval:
  assumes "2 powi k \<le> q" "q < 2 powi (k + 1)"
    and "of_int n - 1 / 2 < q / 2 powi (max k (- 1022) - 52)"
    and "q / 2 powi (max k (- 1022) - 52) < of_int n + 1 / 2"
  shows "round_to_double s q =
    (if 2 powi 1024 \<le> of_int n * (2 :: rat) powi (max k (- 1022) - 52) then Infinity s
     else Finite s (of_int n * 2 powi (max k (- 1022) - 52)))"
proof -
  have "(0 :: rat) < 2 powi k" by simp
  with assms have "q \<noteq> 0" by linarith
  with floor_log2_eq [OF assms(1,2)] round_half_even_eq [OF assms(3,4)] show ?thesis
    by (simp add: round_to_double_def Let_def)
qed

lemma round_sqrt_eval:
  assumes "2 powi k \<le> q" "q < 2 powi (k + 1)"
    and "0 \<le> r" "r\<^sup>2 \<le> \<lfloor>q / (2 powi (k div 2 - 52) * 2 powi (k div 2 - 52))\<rfloor>"
    and "\<lfloor>q / (2 powi (k div 2 - 52) * 2 powi (k div 2 - 52))\<rfloor> < (r + 1)\<^sup>2"
  shows "round_sqrt q =
    (let ulp = 2 powi (k div 2 - 52); t = q / (ulp * ulp); h = (of_int r + 1 / 2)\<^sup>2;
         n = (if t < h then r else if h < t then r + 1 else if even r then r else r + 1)
     in Finite False (of_int n * ulp))"
  unfolding round_sqrt_def Let_def floor_log2_eq [OF assms(1,2)] isqrt_eq [OF assms(3,4,5)]
  by (rule refl)

lemma round_half_even_nonneg:
  assumes "0 \<le> x"
  shows "0 \<le> round_half_even x"
proof -
  from assms have "0 \<le> \<lfloor>x\<rfloor>" by simp
  then show ?thesis by (simp add: round_half_even_def Let_def)
qed

lemma round_to_double_nonneg:
  assumes "0 \<le> q"
  shows "round_to_double False q = Infinity False \<or>
    (\<exists>v. 0 \<le> v \<and> round_to_double False q = Finite False v)"
proof (cases "q = 0")
  case True
  then show ?thesis by (simp add: round_to_double_def)
next
  case False
  let ?ulp = "(2 :: rat) powi (max (floor_log2 q) (- 1022) - 52)"
  have "0 < ?ulp" by simp
  with assms have "0 \<le> q / ?ulp" by simp
  then have "0 \<le> round_half_even (q / ?ulp)" by (rule round_half_even_nonneg)
  then have "0 \<le> of_int (round_half_even (q / ?ulp)) * ?ulp" by simp
  with False show ?thesis by (auto simp: round_to_double_def Let_def)
qed

lemma Math_round_eval:
  assumes "of_int r \<le> signed s m + 1 / 2" "signed s m + 1 / 2 < of_int r + 1" "r \<noteq> 0"
  shows "Math_round (Finite s m) = Finite (r < 0) (of_int \<bar>r\<bar>)"
proof -
  from assms(1,2) have "\<lfloor>signed s m + 1 / 2\<rfloor> = r" by (intro floor_unique) simp_all
  with assms(3) show ?thesis by (simp add: Let_def)
qed

lemma Math_round_zero: "Math_round (Finite s 0) = Finite s 0"
proof -
  have "\<lfloor>1 / 2 :: rat\<rfloor> = 0" by (intro floor_unique) simp_all
  then show ?thesis by (simp add: signed_def Let_def)
qed

lemma Math_round_nonneg:
  assumes "0 \<le> v"
  shows "\<exists>w. 0 \<le> w \<and> Math_round (Finite False v) = Finite False w"
proof -
  from assms have "0 \<le> \<lfloor>v + 1 / 2\<rfloor>" by simp
  then show ?thesis by (auto simp: Let_def signed_def)
qed

lemma js_mul_commute: "js_mul x y = js_mul y x"
proof -
  have sign: "(s \<noteq> t) = (t \<noteq> s)" for s t :: bool by auto
  show ?thesis
    by (cases x; cases y)
      (auto simp: mult.commute sign intro!: arg_cong2 [where f = round_to_double])
qed

lemma js_strict_eq_self: "js_strict_eq x x = (x \<noteq> NaN)"
  by (cases x) simp_all

subsection \<open>Signs and magnitudes\<close>

text \<open>
  A rounding keeps the sign it is given, and the operations hand it a magnitude that is
  not negative.
\<close>

lemma round_to_double_magnitude:
  assumes "0 \<le> q" "round_to_double s q = Finite t m"
  shows "0 \<le> m"
proof (cases "q = 0")
  case True
  with assms show ?thesis by (simp add: round_to_double_def)
next
  case False
  let ?ulp = "(2 :: rat) powi (max (floor_log2 q) (- 1022) - 52)"
  have "0 < ?ulp" by simp
  with assms(1) have "0 \<le> q / ?ulp" by simp
  then have "0 \<le> round_half_even (q / ?ulp)" by (rule round_half_even_nonneg)
  then have "0 \<le> of_int (round_half_even (q / ?ulp)) * ?ulp" by simp
  with False assms(2) show ?thesis by (auto simp: round_to_double_def Let_def split: if_splits)
qed

lemma js_add_magnitude: "js_add x y = Finite t m \<Longrightarrow> 0 \<le> m"
  by (cases x; cases y)
    (auto simp: Let_def split: if_splits dest: round_to_double_magnitude [rotated])

lemma foldl_js_add_magnitude:
  "foldl (\<lambda>sum v. js_add sum (f v)) (Finite False 0) xs = Finite t m \<Longrightarrow> 0 \<le> m"
proof (induction xs rule: rev_induct)
  case Nil
  then show ?case by simp
next
  case (snoc x xs)
  then show ?case by (simp add: js_add_magnitude)
qed

lemma round_sqrt_magnitude:
  assumes "0 < q" "round_sqrt q = Finite t m"
  shows "0 \<le> m"
proof -
  let ?ulp = "(2 :: rat) powi (floor_log2 q div 2 - 52)"
  have ulp: "0 < ?ulp" by simp
  with assms(1) have "0 \<le> q / (?ulp * ?ulp)" by simp
  then have "0 \<le> \<lfloor>q / (?ulp * ?ulp)\<rfloor>" by simp
  from isqrt_bounds [OF this] have "0 \<le> isqrt \<lfloor>q / (?ulp * ?ulp)\<rfloor>" by simp
  with assms(2) ulp show ?thesis
    by (auto simp: round_sqrt_def Let_def split: if_splits)
qed

lemma Math_sqrt_magnitude:
  assumes "Math_sqrt x = Finite t m" "\<And>s q. x = Finite s q \<Longrightarrow> 0 \<le> q"
  shows "0 \<le> m"
proof (cases x)
  case NaN
  with assms(1) show ?thesis by simp
next
  case (Infinity s)
  with assms(1) show ?thesis by (simp split: if_splits)
next
  case (Finite s q)
  with assms(2) have "0 \<le> q" by simp
  with Finite assms(1) show ?thesis
    by (auto split: if_splits dest: round_sqrt_magnitude [rotated])
qed

lemma js_mul_magnitude:
  assumes "js_mul x y = Finite t m"
    and "\<And>s q. x = Finite s q \<Longrightarrow> 0 \<le> q" "\<And>s q. y = Finite s q \<Longrightarrow> 0 \<le> q"
  shows "0 \<le> m"
  using assms
  by (cases x; cases y) (auto split: if_splits dest: round_to_double_magnitude [rotated])

lemma js_div_magnitude:
  assumes "js_div x y = Finite t m"
    and "\<And>s q. x = Finite s q \<Longrightarrow> 0 \<le> q" "\<And>s q. y = Finite s q \<Longrightarrow> 0 \<le> q"
  shows "0 \<le> m"
  using assms
  by (cases x; cases y) (auto split: if_splits dest: round_to_double_magnitude [rotated])

text \<open>
  Every finite value that a rounding returns is a multiple of the smallest positive double
  \<open>2\<^sup>-\<^sup>1\<^sup>0\<^sup>7\<^sup>4\<close>. A positive multiple does not round to zero, so the difference of two
  such values has the sign of the exact difference.
\<close>

lemma round_to_double_grid:
  assumes "round_to_double s q = Finite t m"
  shows "m * 2 ^ 1074 \<in> \<int>"
proof (cases "q = 0")
  case True
  with assms show ?thesis by (simp add: round_to_double_def)
next
  case False
  define e where "e = max (floor_log2 q) (- 1022)"
  define n where "n = round_half_even (q / 2 powi (e - 52))"
  define P :: rat where "P = 2 ^ 1074"
  from False assms have m: "m = of_int n * 2 powi (e - 52)"
    by (auto simp: round_to_double_def Let_def e_def n_def split: if_splits)
  have e: "- 1022 \<le> e" by (simp add: e_def)
  have "P = 2 powi 1074" by (simp add: P_def)
  then have "(2 :: rat) powi (e - 52) * P = 2 powi (e - 52 + 1074)"
    by (simp only: power_int_add [of "2 :: rat", symmetric, simplified])
  also from e have "e - 52 + 1074 = int (nat (e + 1022))" by simp
  also have "(2 :: rat) powi int (nat (e + 1022)) = 2 ^ nat (e + 1022)"
    by (rule power_int_of_nat)
  finally have "m * P = of_int (n * 2 ^ nat (e + 1022))" by (simp add: m)
  then show ?thesis unfolding P_def by (simp only: Ints_of_int)
qed

lemma js_div_grid: "js_div x y = Finite t m \<Longrightarrow> m * 2 ^ 1074 \<in> \<int>"
  by (cases x; cases y) (auto split: if_splits dest: round_to_double_grid)

lemma round_to_double_positive:
  assumes "0 < q" "q * 2 ^ 1074 \<in> \<int>"
  shows "round_to_double s q = Infinity s \<or> (\<exists>w. 0 < w \<and> round_to_double s q = Finite s w)"
proof -
  define e where "e = max (floor_log2 q) (- 1022)"
  define ulp :: rat where "ulp = 2 powi (e - 52)"
  define P :: rat where "P = 2 ^ 1074"
  have ulp: "0 < ulp" by (simp add: ulp_def)
  have P: "0 < P" by (simp add: P_def)
  from assms(2) obtain i :: int where i: "q * P = of_int i"
    unfolding P_def by (auto elim: Ints_cases)
  from assms(1) P have "0 < q * P" by (rule mult_pos_pos)
  with i have "(0 :: rat) < of_int i" by simp
  then have "1 \<le> i" by simp
  then have "(1 :: rat) \<le> of_int i" by simp
  with i have q: "1 \<le> q * P" by simp
  have "1 \<le> q / ulp"
  proof (cases "- 1022 \<le> floor_log2 q")
    case True
    then have "e = floor_log2 q" by (simp add: e_def)
    with floor_log2_bounds [OF assms(1)] have "2 powi e \<le> q" by simp
    moreover have "(2 :: rat) powi e = 2 ^ 52 * ulp"
      by (simp add: ulp_def power_int_diff)
    moreover from ulp have "ulp \<le> 2 ^ 52 * ulp" by simp
    ultimately have "ulp \<le> q" by linarith
    with ulp show ?thesis by (simp add: pos_le_divide_eq)
  next
    case False
    then have "e - 52 = - 1074" by (simp add: e_def)
    then have "ulp = inverse (2 powi 1074)" by (simp only: ulp_def power_int_minus)
    also have "(2 :: rat) powi 1074 = P" by (simp add: P_def)
    finally have "q / ulp = q * P" by (simp only: divide_inverse inverse_inverse_eq)
    with q show ?thesis by simp
  qed
  then have "1 \<le> \<lfloor>q / ulp\<rfloor>" by simp
  then have "1 \<le> round_half_even (q / ulp)" by (simp add: round_half_even_def Let_def)
  then have "(0 :: rat) < of_int (round_half_even (q / ulp))" by simp
  with ulp have "0 < of_int (round_half_even (q / ulp)) * ulp" by simp
  with assms(1) show ?thesis
    by (auto simp: round_to_double_def Let_def e_def ulp_def)
qed

lemma js_sub_sign:
  assumes "m * 2 ^ 1074 \<in> \<int>" "n * 2 ^ 1074 \<in> \<int>"
  shows "js_sub (Finite t n) (Finite s m) \<noteq> NaN"
    and "js_gt (js_sub (Finite t n) (Finite s m)) (Finite False 0) = (signed s m < signed t n)"
    and "js_gt (Finite False 0) (js_sub (Finite t n) (Finite s m)) = (signed t n < signed s m)"
    and "js_strict_eq (js_sub (Finite t n) (Finite s m)) (Finite False 0) =
      (signed t n = signed s m)"
proof -
  define v where "v = signed t n - signed s m"
  have "signed t n + signed (\<not> s) m = v" by (simp add: v_def signed_def)
  then have sub: "js_sub (Finite t n) (Finite s m) =
      (if v = 0 then Finite (t \<and> \<not> s) 0 else round_to_double (v < 0) \<bar>v\<bar>)"
    by (simp only: js_sub_def js_neg.simps js_add.simps Let_def)
  have "(signed t n - signed s m) * 2 ^ 1074 = signed t (n * 2 ^ 1074) - signed s (m * 2 ^ 1074)"
    by (simp add: signed_def algebra_simps)
  also have "\<dots> \<in> \<int>" using assms by (simp add: signed_def)
  finally have "v * 2 ^ 1074 \<in> \<int>" by (simp only: v_def)
  then have grid: "\<bar>v\<bar> * 2 ^ 1074 \<in> \<int>"
    by (cases "v < 0") (simp_all add: abs_if)
  consider "v = 0" | "0 < v" | "v < 0" by linarith
  then have "js_sub (Finite t n) (Finite s m) \<noteq> NaN \<and>
    js_gt (js_sub (Finite t n) (Finite s m)) (Finite False 0) = (0 < v) \<and>
    js_gt (Finite False 0) (js_sub (Finite t n) (Finite s m)) = (v < 0) \<and>
    js_strict_eq (js_sub (Finite t n) (Finite s m)) (Finite False 0) = (v = 0)"
  proof cases
    case 1
    then show ?thesis by (simp add: sub signed_def)
  next
    case 2
    then have "0 < \<bar>v\<bar>" by simp
    from round_to_double_positive [OF this grid, of False] 2 show ?thesis
      by (auto simp: sub signed_def)
  next
    case 3
    then have "0 < \<bar>v\<bar>" by simp
    from round_to_double_positive [OF this grid, of True] 3 show ?thesis
      by (auto simp: sub signed_def)
  qed
  then show "js_sub (Finite t n) (Finite s m) \<noteq> NaN"
    and "js_gt (js_sub (Finite t n) (Finite s m)) (Finite False 0) = (signed s m < signed t n)"
    and "js_gt (Finite False 0) (js_sub (Finite t n) (Finite s m)) = (signed t n < signed s m)"
    and "js_strict_eq (js_sub (Finite t n) (Finite s m)) (Finite False 0) =
      (signed t n = signed s m)"
    by (auto simp: v_def)
qed

subsection \<open>Literals of the source\<close>

lemma literal_0_7: "double_of_rat (7 / 10) = Finite False (3152519739159347 / 2 ^ 52)"
  unfolding double_of_rat_def
  by (simp, subst round_to_double_eval [where k = "- 1" and n = 6305039478318694]) simp_all

lemma literal_0_6: "double_of_rat (6 / 10) = Finite False (5404319552844595 / 2 ^ 53)"
  unfolding double_of_rat_def
  by (simp, subst round_to_double_eval [where k = "- 1" and n = 5404319552844595]) simp_all

lemma literal_100: "double_of_rat 100 = Finite False 100"
  unfolding double_of_rat_def
  by (simp, subst round_to_double_eval [where k = 6 and n = "100 * 2 ^ 46"]) simp_all

subsection \<open>Single operations on the values used below\<close>

lemma literal_2_7e_162:
  "double_of_rat (27 / 10 ^ 163) =
     Finite False (5470552751942715 / 2 ^ 589)"
  unfolding double_of_rat_def
  by (simp, subst round_to_double_eval [where k = "-537" and n = "5470552751942715"]) simp_all

lemma mul_one_x:
  "js_mul (Finite False 1) (Finite False (5470552751942715 / 2 ^ 589)) =
     Finite False (5470552751942715 / 2 ^ 589)"
  by (simp, subst round_to_double_eval [where k = "-537" and n = "5470552751942715"]) simp_all

lemma add_zero_x:
  "js_add (Finite False 0) (Finite False (5470552751942715 / 2 ^ 589)) =
     Finite False (5470552751942715 / 2 ^ 589)"
  by (simp add: signed_def, subst round_to_double_eval [where k = "-537" and n = "5470552751942715"]) simp_all

lemma mul_one_one:
  "js_mul (Finite False 1) (Finite False 1) =
     Finite False 1"
  by (simp, subst round_to_double_eval [where k = "0" and n = "4503599627370496"]) simp_all

lemma add_zero_one:
  "js_add (Finite False 0) (Finite False 1) =
     Finite False 1"
  by (simp add: signed_def, subst round_to_double_eval [where k = "0" and n = "4503599627370496"]) simp_all

lemma sqrt_one:
  "Math_sqrt (Finite False 1) =
     Finite False 1"
  by (simp, subst round_sqrt_eval [where k = "0" and r = "4503599627370496"])
    (simp_all add: Let_def power_divide)

lemma mul_x_x:
  "js_mul (Finite False (5470552751942715 / 2 ^ 589)) (Finite False (5470552751942715 / 2 ^ 589)) =
     Finite False (1 / 2 ^ 1074)"
  by (simp, subst round_to_double_eval [where k = "-1074" and n = "1"]) simp_all

lemma add_zero_xx:
  "js_add (Finite False 0) (Finite False (1 / 2 ^ 1074)) =
     Finite False (1 / 2 ^ 1074)"
  by (simp add: signed_def, subst round_to_double_eval [where k = "-1074" and n = "1"]) simp_all

lemma sqrt_xx:
  "Math_sqrt (Finite False (1 / 2 ^ 1074)) =
     Finite False (1 / 2 ^ 537)"
  by (simp, subst round_sqrt_eval [where k = "-1074" and r = "4503599627370496"])
    (simp_all add: Let_def power_divide)

lemma mul_one_sx:
  "js_mul (Finite False 1) (Finite False (1 / 2 ^ 537)) =
     Finite False (1 / 2 ^ 537)"
  by (simp, subst round_to_double_eval [where k = "-537" and n = "4503599627370496"]) simp_all

lemma div_x_sx:
  "js_div (Finite False (5470552751942715 / 2 ^ 589)) (Finite False (1 / 2 ^ 537)) =
     Finite False (5470552751942715 / 2 ^ 52)"
  by (simp, subst round_to_double_eval [where k = "0" and n = "5470552751942715"]) simp_all

lemma mul_score_100:
  "js_mul (Finite False (5470552751942715 / 2 ^ 52)) (Finite False 100) =
     Finite False (2136934668727623 / 2 ^ 44)"
  by (simp, subst round_to_double_eval [where k = "6" and n = "8547738674910492"]) simp_all

lemma mul_1_7:
  "js_mul (Finite False 1) (Finite False 7) =
     Finite False 7"
  by (simp, subst round_to_double_eval [where k = "2" and n = "7881299347898368"]) simp_all

lemma add_zero_7:
  "js_add (Finite False 0) (Finite False 7) =
     Finite False 7"
  by (simp add: signed_def, subst round_to_double_eval [where k = "2" and n = "7881299347898368"]) simp_all

lemma mul_8_4:
  "js_mul (Finite False 8) (Finite False 4) =
     Finite False 32"
  by (simp, subst round_to_double_eval [where k = "5" and n = "4503599627370496"]) simp_all

lemma add_7_32:
  "js_add (Finite False 7) (Finite False 32) =
     Finite False 39"
  by (simp add: signed_def, subst round_to_double_eval [where k = "5" and n = "5488762045857792"]) simp_all

lemma mul_8_8:
  "js_mul (Finite False 8) (Finite False 8) =
     Finite False 64"
  by (simp, subst round_to_double_eval [where k = "6" and n = "4503599627370496"]) simp_all

lemma add_1_64:
  "js_add (Finite False 1) (Finite False 64) =
     Finite False 65"
  by (simp add: signed_def, subst round_to_double_eval [where k = "6" and n = "4573968371548160"]) simp_all

lemma mul_7_7:
  "js_mul (Finite False 7) (Finite False 7) =
     Finite False 49"
  by (simp, subst round_to_double_eval [where k = "5" and n = "6896136929411072"]) simp_all

lemma add_zero_49:
  "js_add (Finite False 0) (Finite False 49) =
     Finite False 49"
  by (simp add: signed_def, subst round_to_double_eval [where k = "5" and n = "6896136929411072"]) simp_all

lemma mul_4_4:
  "js_mul (Finite False 4) (Finite False 4) =
     Finite False 16"
  by (simp, subst round_to_double_eval [where k = "4" and n = "4503599627370496"]) simp_all

lemma add_49_16:
  "js_add (Finite False 49) (Finite False 16) =
     Finite False 65"
  by (simp add: signed_def, subst round_to_double_eval [where k = "6" and n = "4573968371548160"]) simp_all

lemma sqrt_65:
  "Math_sqrt (Finite False 65) =
     Finite False (283665476492205 / 2 ^ 45)"
  by (simp, subst round_sqrt_eval [where k = "6" and r = "4538647623875280"])
    (simp_all add: Let_def power_divide)

lemma mul_s65_s65:
  "js_mul (Finite False (283665476492205 / 2 ^ 45)) (Finite False (283665476492205 / 2 ^ 45)) =
     Finite False (4573968371548159 / 2 ^ 46)"
  by (simp, subst round_to_double_eval [where k = "6" and n = "4573968371548159"]) simp_all

lemma div_39_p:
  "js_div (Finite False 39) (Finite False (4573968371548159 / 2 ^ 46)) =
     Finite False (1351079888211149 / 2 ^ 51)"
  by (simp, subst round_to_double_eval [where k = "-1" and n = "5404319552844596"]) simp_all

lemma literal_0_6000000000000001:
  "double_of_rat (6000000000000001 / 10 ^ 16) =
     Finite False (1351079888211149 / 2 ^ 51)"
  unfolding double_of_rat_def
  by (simp, subst round_to_double_eval [where k = "-1" and n = "5404319552844596"]) simp_all

lemma literal_1e_minus_200:
  "double_of_rat (1 / 10 ^ 200) =
     Finite False (1723641332219371 / 2 ^ 715)"
  unfolding double_of_rat_def
  by (simp, subst round_to_double_eval [where k = "-665" and n = "6894565328877484"]) simp_all

lemma mul_y_y:
  "js_mul (Finite False (1723641332219371 / 2 ^ 715)) (Finite False (1723641332219371 / 2 ^ 715)) =
     Finite False 0"
  by (simp, subst round_to_double_eval [where k = "-1329" and n = "0"]) simp_all



lemma mul_a_b:
  "js_mul (Finite False (2 ^ 500)) (Finite False (2 ^ 600)) =
     Infinity False"
  by (simp, subst round_to_double_eval [where k = "1100" and n = "4503599627370496"]) simp_all

lemma mul_a_a:
  "js_mul (Finite False (2 ^ 500)) (Finite False (2 ^ 500)) =
     Finite False (2 ^ 1000)"
  by (simp, subst round_to_double_eval [where k = "1000" and n = "4503599627370496"]) simp_all

lemma add_zero_aa:
  "js_add (Finite False 0) (Finite False (2 ^ 1000)) =
     Finite False (2 ^ 1000)"
  by (simp add: signed_def, subst round_to_double_eval [where k = "1000" and n = "4503599627370496"]) simp_all

lemma sqrt_aa:
  "Math_sqrt (Finite False (2 ^ 1000)) =
     Finite False (2 ^ 500)"
  by (simp, subst round_sqrt_eval [where k = "1000" and r = "4503599627370496"])
    (simp_all add: Let_def power_divide)

lemma mul_b_b:
  "js_mul (Finite False (2 ^ 600)) (Finite False (2 ^ 600)) =
     Infinity False"
  by (simp, subst round_to_double_eval [where k = "1200" and n = "4503599627370496"]) simp_all

lemma mul_a_one:
  "js_mul (Finite False (2 ^ 500)) (Finite False 1) =
     Finite False (2 ^ 500)"
  by (simp, subst round_to_double_eval [where k = "500" and n = "4503599627370496"]) simp_all

lemma add_zero_a:
  "js_add (Finite False 0) (Finite False (2 ^ 500)) =
     Finite False (2 ^ 500)"
  by (simp add: signed_def, subst round_to_double_eval [where k = "500" and n = "4503599627370496"]) simp_all

lemma div_a_a:
  "js_div (Finite False (2 ^ 500)) (Finite False (2 ^ 500)) =
     Finite False 1"
  by (simp, subst round_to_double_eval [where k = "0" and n = "4503599627370496"]) simp_all

lemma mul_19_10:
  "js_mul (Finite False 19) (Finite False 10) =
     Finite False 190"
  by (simp, subst round_to_double_eval [where k = "7" and n = "6685030696878080"]) simp_all

lemma add_zero_190:
  "js_add (Finite False 0) (Finite False 190) =
     Finite False 190"
  by (simp add: signed_def, subst round_to_double_eval [where k = "7" and n = "190 * 2 ^ 45"]) simp_all

lemma mul_5_17:
  "js_mul (Finite False 5) (Finite False 17) =
     Finite False 85"
  by (simp, subst round_to_double_eval [where k = "6" and n = "5981343255101440"]) simp_all

lemma add_190_85:
  "js_add (Finite False 190) (Finite False 85) =
     Finite False 275"
  by (simp add: signed_def, subst round_to_double_eval [where k = "8" and n = "4837851162214400"]) simp_all

lemma mul_2_m1:
  "js_mul (Finite False 2) (Finite True 1) =
     Finite True 2"
  by (simp, subst round_to_double_eval [where k = "1" and n = "4503599627370496"]) simp_all

lemma add_275_m2:
  "js_add (Finite False 275) (Finite True 2) =
     Finite False 273"
  by (simp add: signed_def, subst round_to_double_eval [where k = "8" and n = "4802666790125568"]) simp_all

lemma mul_19_19:
  "js_mul (Finite False 19) (Finite False 19) =
     Finite False 361"
  by (simp, subst round_to_double_eval [where k = "8" and n = "6350779162034176"]) simp_all

lemma add_zero_361:
  "js_add (Finite False 0) (Finite False 361) =
     Finite False 361"
  by (simp add: signed_def, subst round_to_double_eval [where k = "8" and n = "361 * 2 ^ 44"]) simp_all

lemma mul_5_5:
  "js_mul (Finite False 5) (Finite False 5) =
     Finite False 25"
  by (simp, subst round_to_double_eval [where k = "4" and n = "7036874417766400"]) simp_all

lemma add_361_25:
  "js_add (Finite False 361) (Finite False 25) =
     Finite False 386"
  by (simp add: signed_def, subst round_to_double_eval [where k = "8" and n = "6790583813144576"]) simp_all

lemma mul_2_2:
  "js_mul (Finite False 2) (Finite False 2) =
     Finite False 4"
  by (simp, subst round_to_double_eval [where k = "2" and n = "4503599627370496"]) simp_all

lemma add_386_4:
  "js_add (Finite False 386) (Finite False 4) =
     Finite False 390"
  by (simp add: signed_def, subst round_to_double_eval [where k = "8" and n = "6860952557322240"]) simp_all

lemma mul_10_10:
  "js_mul (Finite False 10) (Finite False 10) =
     Finite False 100"
  by (simp, subst round_to_double_eval [where k = "6" and n = "7036874417766400"]) simp_all

lemma add_zero_100:
  "js_add (Finite False 0) (Finite False 100) =
     Finite False 100"
  by (simp add: signed_def, subst round_to_double_eval [where k = "6" and n = "100 * 2 ^ 46"]) simp_all

lemma mul_17_17:
  "js_mul (Finite False 17) (Finite False 17) =
     Finite False 289"
  by (simp, subst round_to_double_eval [where k = "8" and n = "5084141766836224"]) simp_all

lemma add_100_289:
  "js_add (Finite False 100) (Finite False 289) =
     Finite False 389"
  by (simp add: signed_def, subst round_to_double_eval [where k = "8" and n = "6843360371277824"]) simp_all

lemma mul_m1_m1:
  "js_mul (Finite True 1) (Finite True 1) =
     Finite False 1"
  by (simp, subst round_to_double_eval [where k = "0" and n = "4503599627370496"]) simp_all

lemma add_389_1:
  "js_add (Finite False 389) (Finite False 1) =
     Finite False 390"
  by (simp add: signed_def, subst round_to_double_eval [where k = "8" and n = "6860952557322240"]) simp_all

lemma sqrt_390:
  "Math_sqrt (Finite False 390) =
     Finite False (5558685400394871 / 2 ^ 48)"
  by (simp, subst round_sqrt_eval [where k = "8" and r = "5558685400394871"])
    (simp_all add: Let_def power_divide)

lemma mul_s390_s390:
  "js_mul (Finite False (5558685400394871 / 2 ^ 48)) (Finite False (5558685400394871 / 2 ^ 48)) =
     Finite False (6860952557322239 / 2 ^ 44)"
  by (simp, subst round_to_double_eval [where k = "8" and n = "6860952557322239"]) simp_all

lemma div_273_p:
  "js_div (Finite False 273) (Finite False (6860952557322239 / 2 ^ 44)) =
     Finite False (6305039478318695 / 2 ^ 53)"
  by (simp, subst round_to_double_eval [where k = "-1" and n = "6305039478318695"]) simp_all

lemma literal_0_7000000000000001:
  "double_of_rat (7000000000000001 / 10 ^ 16) =
     Finite False (6305039478318695 / 2 ^ 53)"
  unfolding double_of_rat_def
  by (simp, subst round_to_double_eval [where k = "-1" and n = "6305039478318695"]) simp_all

lemma mul_0_7000000000000001_100:
  "js_mul (Finite False (6305039478318695 / 2 ^ 53)) (Finite False 100) =
     Finite False 70"
  by (simp, subst round_to_double_eval [where k = "6" and n = "4925812092436480"]) simp_all

lemma mul_0_6000000000000001_100:
  "js_mul (Finite False (1351079888211149 / 2 ^ 51)) (Finite False 100) =
     Finite False (8444249301319681 / 2 ^ 47)"
  by (simp, subst round_to_double_eval [where k = "5" and n = "8444249301319681"]) simp_all

section \<open>Properties of the similarity scorer\<close>

lemma cosineSimilarity_absent:
  "cosineSimilarity None vecB = Finite False 0" "cosineSimilarity vecA None = Finite False 0"
  by (simp_all add: cosineSimilarity_def split: option.splits)

lemma cosineSimilarity_lengths:
  "length a \<noteq> length b \<Longrightarrow> cosineSimilarity (Some a) (Some b) = Finite False 0"
  by (simp add: cosineSimilarity_def)

lemma cosineSimilarity_singleton:
  "cosineSimilarity (Some [a]) (Some [b]) =
     (if js_strict_eq (Math_sqrt (js_add (Finite False 0) (js_mul a a))) (Finite False 0) \<or>
         js_strict_eq (Math_sqrt (js_add (Finite False 0) (js_mul b b))) (Finite False 0)
      then Finite False 0
      else js_div (js_add (Finite False 0) (js_mul a b))
             (js_mul (Math_sqrt (js_add (Finite False 0) (js_mul a a)))
                     (Math_sqrt (js_add (Finite False 0) (js_mul b b)))))"
  by (simp add: cosineSimilarity_def Let_def)

lemma cosineSimilarity_pair:
  "cosineSimilarity (Some [a1, a2]) (Some [b1, b2]) =
     (if js_strict_eq
           (Math_sqrt (js_add (js_add (Finite False 0) (js_mul a1 a1)) (js_mul a2 a2)))
           (Finite False 0) \<or>
         js_strict_eq
           (Math_sqrt (js_add (js_add (Finite False 0) (js_mul b1 b1)) (js_mul b2 b2)))
           (Finite False 0)
      then Finite False 0
      else js_div (js_add (js_add (Finite False 0) (js_mul a1 b1)) (js_mul a2 b2))
             (js_mul
               (Math_sqrt (js_add (js_add (Finite False 0) (js_mul a1 a1)) (js_mul a2 a2)))
               (Math_sqrt (js_add (js_add (Finite False 0) (js_mul b1 b1)) (js_mul b2 b2)))))"
  by (simp add: cosineSimilarity_def Let_def)

lemma cosineSimilarity_triple:
  "cosineSimilarity (Some [a1, a2, a3]) (Some [b1, b2, b3]) =
     (if js_strict_eq
           (Math_sqrt (js_add (js_add (js_add (Finite False 0) (js_mul a1 a1)) (js_mul a2 a2))
              (js_mul a3 a3)))
           (Finite False 0) \<or>
         js_strict_eq
           (Math_sqrt (js_add (js_add (js_add (Finite False 0) (js_mul b1 b1)) (js_mul b2 b2))
              (js_mul b3 b3)))
           (Finite False 0)
      then Finite False 0
      else js_div
             (js_add (js_add (js_add (Finite False 0) (js_mul a1 b1)) (js_mul a2 b2))
                (js_mul a3 b3))
             (js_mul
               (Math_sqrt (js_add (js_add (js_add (Finite False 0) (js_mul a1 a1)) (js_mul a2 a2))
                  (js_mul a3 a3)))
               (Math_sqrt (js_add (js_add (js_add (Finite False 0) (js_mul b1 b1)) (js_mul b2 b2))
                  (js_mul b3 b3)))))"
  by (simp add: cosineSimilarity_def Let_def)

text \<open>
  The scorer on ordinary vectors: \<^verbatim>\<open>cosineSimilarity([1, 8], [7, 4])\<close> is
  \<^verbatim>\<open>0.6000000000000001\<close> and \<^verbatim>\<open>cosineSimilarity([19, 5, 2], [10, 17, -1])\<close> is
  \<^verbatim>\<open>0.7000000000000001\<close>, where the exact cosines are \<open>0.6\<close> and \<open>0.7\<close>.
\<close>

lemma cosineSimilarity_1_8_7_4:
  "cosineSimilarity (Some [Finite False 1, Finite False 8]) (Some [Finite False 7, Finite False 4]) =
     double_of_rat (6000000000000001 / 10 ^ 16)"
  unfolding cosineSimilarity_pair literal_0_6000000000000001
    mul_1_7 add_zero_7 mul_8_4 add_7_32 mul_one_one add_zero_one mul_8_8 add_1_64
    mul_7_7 add_zero_49 mul_4_4 add_49_16 sqrt_65 mul_s65_s65 div_39_p
  by (simp add: signed_def)

lemma cosineSimilarity_19_5_2_10_17_m1:
  "cosineSimilarity (Some [Finite False 19, Finite False 5, Finite False 2])
     (Some [Finite False 10, Finite False 17, Finite True 1]) =
     double_of_rat (7000000000000001 / 10 ^ 16)"
  unfolding cosineSimilarity_triple literal_0_7000000000000001
    mul_19_10 add_zero_190 mul_5_17 add_190_85 mul_2_m1 add_275_m2
    mul_19_19 add_zero_361 mul_5_5 add_361_25 mul_2_2 add_386_4
    mul_10_10 add_zero_100 mul_17_17 add_100_289 mul_m1_m1 add_389_1
    sqrt_390 mul_s390_s390 div_273_p
  by (simp add: signed_def)

text \<open>
  The two orders of the arguments compute the same double: the guard is symmetric, the
  products commute and are added in the same order.
\<close>

lemma dot_product_commute:
  assumes "length a = length b"
  shows "foldl (\<lambda>sum (val, i). js_add sum (js_mul val (b ! i))) acc (zip a [0..<length a]) =
    foldl (\<lambda>sum (val, i). js_add sum (js_mul val (a ! i))) acc (zip b [0..<length b])"
proof -
  have za: "zip a [0..<length a] = map (\<lambda>i. (a ! i, i)) [0..<length a]"
    by (rule nth_equalityI) simp_all
  have zb: "zip b [0..<length b] = map (\<lambda>i. (b ! i, i)) [0..<length b]"
    by (rule nth_equalityI) simp_all
  show ?thesis
    unfolding za zb using assms
    by (simp add: foldl_map js_mul_commute)
qed

lemma cosineSimilarity_same_double: "cosineSimilarity a b = cosineSimilarity b a"
proof (cases a)
  case None
  then show ?thesis by (simp add: cosineSimilarity_def split: option.splits)
next
  case a: (Some x)
  show ?thesis
  proof (cases b)
    case None
    with a show ?thesis by (simp add: cosineSimilarity_def)
  next
    case (Some y)
    show ?thesis
    proof (cases "length x = length y")
      case True
      from dot_product_commute [OF True] a Some True show ?thesis
        by (auto simp: cosineSimilarity_def Let_def js_mul_commute)
    next
      case False
      with a Some show ?thesis by (auto simp: cosineSimilarity_def)
    qed
  qed
qed

text \<open>
  A finite score has a magnitude that is not negative and is a multiple of the smallest
  positive double: every path ends in the literal \<open>0\<close> or in the rounding of a quotient.
\<close>

lemma cosineSimilarity_magnitude:
  assumes "cosineSimilarity vecA vecB = Finite t m"
  shows "0 \<le> m"
proof (cases "\<exists>a b. vecA = Some a \<and> vecB = Some b \<and> length a = length b")
  case False
  with assms show ?thesis
    by (auto simp: cosineSimilarity_def split: option.splits if_splits)
next
  case True
  then obtain a b where v: "vecA = Some a" "vecB = Some b" "length a = length b" by blast
  let ?dot = "foldl (\<lambda>sum (val, i). js_add sum (js_mul val (b ! i))) (Finite False 0)
      (zip a [0..<length a])"
  let ?sa = "foldl (\<lambda>sum val. js_add sum (js_mul val val)) (Finite False 0) a"
  let ?sb = "foldl (\<lambda>sum val. js_add sum (js_mul val val)) (Finite False 0) b"
  have dot: "0 \<le> q" if "?dot = Finite s q" for s q
    using that foldl_js_add_magnitude [of "\<lambda>(val, i). js_mul val (b ! i)" "zip a [0..<length a]" s q]
    by (simp add: case_prod_unfold)
  have ma: "0 \<le> q" if "Math_sqrt ?sa = Finite s q" for s q
    using that by (rule Math_sqrt_magnitude) (rule foldl_js_add_magnitude)
  have mb: "0 \<le> q" if "Math_sqrt ?sb = Finite s q" for s q
    using that by (rule Math_sqrt_magnitude) (rule foldl_js_add_magnitude)
  have den: "0 \<le> q" if "js_mul (Math_sqrt ?sa) (Math_sqrt ?sb) = Finite s q" for s q
    using that ma mb by (rule js_mul_magnitude)
  show ?thesis
  proof (cases "js_strict_eq (Math_sqrt ?sa) (Finite False 0) \<or>
      js_strict_eq (Math_sqrt ?sb) (Finite False 0)")
    case True
    with assms v show ?thesis by (simp add: cosineSimilarity_def Let_def)
  next
    case False
    with assms v have "js_div ?dot (js_mul (Math_sqrt ?sa) (Math_sqrt ?sb)) = Finite t m"
      by (simp add: cosineSimilarity_def Let_def)
    then show ?thesis using dot den by (rule js_div_magnitude)
  qed
qed

lemma cosineSimilarity_grid:
  "cosineSimilarity vecA vecB = Finite t m \<Longrightarrow> m * 2 ^ 1074 \<in> \<int>"
  by (auto simp: cosineSimilarity_def Let_def split: option.splits if_splits dest: js_div_grid)

text \<open>
  Claim C6 has the scorer return the cosine similarity whenever both vectors are present,
  of one length and of non-zero norm. The squares of a small component underflow to zero:
  for \<^verbatim>\<open>a = b = [1e-200]\<close> the computed sum of squares is 0, the magnitude check fires and
  the result is 0, for a vector whose norm is not zero and whose cosine with itself is 1.
\<close>

theorem cosineSimilarity_underflow:
  "double_of_rat (1 / 10 ^ 200) = Finite False (1723641332219371 / 2 ^ 715) \<and>
   cosineSimilarity (Some [double_of_rat (1 / 10 ^ 200)]) (Some [double_of_rat (1 / 10 ^ 200)]) =
     Finite False 0"
  unfolding cosineSimilarity_singleton literal_1e_minus_200 mul_y_y
  by (simp add: signed_def)


section \<open>Properties of the ranker\<close>

subsection \<open>The sorted list\<close>

lemma by_score_self: "by_score (d, Finite s m) (d, Finite s m) = Finite False 0"
  by (simp add: by_score_def js_sub_def signed_def)

lemma Array_sort_single:
  "Array_sort engine by_score [(d, Finite s m)] = [(d, Finite s m)]"
  by (simp add: Array_sort_def consistent_comparator_def by_score_self insertion_sort_def)

lemma topDocs_single:
  assumes "embedding doc = Some e" "cosineSimilarity queryEmbedding (Some e) = Finite s m"
  shows "topDocs engine queryEmbedding [doc] = [(doc, Finite s m)]"
  using assms Array_sort_single [of engine doc s m] by (simp add: topDocs_def scoreDocs_def)

lemma set_insert_sorted: "set (insert_sorted comparefn x xs) = insert x (set xs)"
  by (induction xs) auto

lemma set_insertion_sort: "set (insertion_sort comparefn xs) = set xs"
  unfolding insertion_sort_def by (induction xs) (simp_all add: set_insert_sorted)

lemma by_score_sign:
  assumes "snd a = Finite s m" "m * 2 ^ 1074 \<in> \<int>" "snd b = Finite t n" "n * 2 ^ 1074 \<in> \<int>"
  shows "by_score a b \<noteq> NaN"
    and "js_gt (by_score a b) (Finite False 0) = (signed s m < signed t n)"
    and "js_gt (Finite False 0) (by_score a b) = (signed t n < signed s m)"
    and "js_strict_eq (by_score a b) (Finite False 0) = (signed t n = signed s m)"
  unfolding by_score_def assms(1,3) by (rule js_sub_sign [OF assms(2,4)])+

text \<open>
  When no score is \<open>NaN\<close> or infinite the comparator is consistent, so the order does not
  depend on the engine, and the head of the sorted list is a chunk of maximal score.
\<close>

lemma by_score_consistent:
  assumes "\<forall>p \<in> set xs. \<exists>s m. snd p = Finite s m \<and> m * 2 ^ 1074 \<in> \<int>"
  shows "consistent_comparator by_score xs"
proof -
  have "by_score a b \<noteq> NaN \<and>
      js_strict_eq (by_score a a) (Finite False 0) \<and>
      (if js_strict_eq (by_score a b) (Finite False 0)
       then js_strict_eq (by_score b a) (Finite False 0) else True) \<and>
      (if js_strict_eq (by_score a b) (Finite False 0) \<and>
          js_strict_eq (by_score b c) (Finite False 0)
       then js_strict_eq (by_score a c) (Finite False 0) else True) \<and>
      (if js_gt (Finite False 0) (by_score a b) \<and> js_gt (Finite False 0) (by_score b c)
       then js_gt (Finite False 0) (by_score a c) else True) \<and>
      (if js_gt (by_score a b) (Finite False 0) \<and> js_gt (by_score b c) (Finite False 0)
       then js_gt (by_score a c) (Finite False 0) else True)"
    if "a \<in> set xs" "b \<in> set xs" "c \<in> set xs" for a b c
  proof -
    from assms that(1) have "\<exists>s m. snd a = Finite s m \<and> m * 2 ^ 1074 \<in> \<int>" by (rule bspec)
    then obtain s m where a: "snd a = Finite s m" "m * 2 ^ 1074 \<in> \<int>" by blast
    from assms that(2) have "\<exists>s m. snd b = Finite s m \<and> m * 2 ^ 1074 \<in> \<int>" by (rule bspec)
    then obtain t n where b: "snd b = Finite t n" "n * 2 ^ 1074 \<in> \<int>" by blast
    from assms that(3) have "\<exists>s m. snd c = Finite s m \<and> m * 2 ^ 1074 \<in> \<int>" by (rule bspec)
    then obtain u k where c: "snd c = Finite u k" "k * 2 ^ 1074 \<in> \<int>" by blast
    show ?thesis
      unfolding by_score_sign [OF a b] by_score_sign [OF a a] by_score_sign [OF b a]
        by_score_sign [OF b c] by_score_sign [OF a c]
      using by_score_sign(1) [OF a b] by auto
  qed
  then show ?thesis
    unfolding consistent_comparator_def Let_def list_all_iff by blast
qed

lemma insertion_sort_head:
  assumes "\<forall>p \<in> set xs. \<exists>s m. snd p = Finite s m \<and> m * 2 ^ 1074 \<in> \<int>" "xs \<noteq> []"
  shows "\<exists>best rest. insertion_sort by_score xs = best # rest \<and> best \<in> set xs \<and>
    (\<forall>p \<in> set xs. \<not> js_gt (snd p) (snd best))"
  using assms
proof (induction xs)
  case Nil
  then show ?case by simp
next
  case (Cons x xs)
  from Cons.prems(1) obtain s m where x: "snd x = Finite s m" "m * 2 ^ 1074 \<in> \<int>" by auto
  have step: "insertion_sort by_score (x # xs) =
      insert_sorted by_score x (insertion_sort by_score xs)"
    by (simp add: insertion_sort_def)
  show ?case
  proof (cases "xs = []")
    case True
    with x show ?thesis by (simp add: insertion_sort_def)
  next
    case False
    with Cons obtain best rest where IH: "insertion_sort by_score xs = best # rest"
      "best \<in> set xs" "\<forall>p \<in> set xs. \<not> js_gt (snd p) (snd best)"
      by auto
    from Cons.prems(1) IH(2) obtain t n where best: "snd best = Finite t n" "n * 2 ^ 1074 \<in> \<int>"
      by auto
    show ?thesis
    proof (cases "signed s m < signed t n")
      case True
      then have "insertion_sort by_score (x # xs) = best # insert_sorted by_score x rest"
        by (simp add: step IH(1) by_score_sign(2) [OF x best])
      moreover from True have "\<not> js_gt (snd x) (snd best)" by (simp add: x best)
      ultimately show ?thesis using IH(2,3) by auto
    next
      case le: False
      then have "insertion_sort by_score (x # xs) = x # best # rest"
        by (simp add: step IH(1) by_score_sign(2) [OF x best])
      moreover have "\<not> js_gt (snd p) (snd x)" if "p \<in> set xs" for p
      proof -
        from Cons.prems(1) that obtain u k where p: "snd p = Finite u k" by auto
        from IH(3) that have "\<not> js_gt (snd p) (snd best)" by simp
        with le show ?thesis by (simp add: p x best)
      qed
      moreover have "\<not> js_gt (snd x) (snd x)" by (simp add: x)
      ultimately show ?thesis by auto
    qed
  qed
qed

lemma best_chunk_first:
  assumes "allDocs \<noteq> []"
    and "\<forall>p \<in> set (scoreDocs queryEmbedding allDocs). \<exists>s m. snd p = Finite s m"
  shows "\<exists>bestMatch rest. topDocs engine queryEmbedding allDocs = bestMatch # rest \<and>
    bestMatch \<in> set (scoreDocs queryEmbedding allDocs) \<and>
    (\<forall>p \<in> set (scoreDocs queryEmbedding allDocs). \<not> js_gt (snd p) (snd bestMatch))"
proof -
  let ?xs = "scoreDocs queryEmbedding allDocs"
  have grid: "\<forall>p \<in> set ?xs. \<exists>s m. snd p = Finite s m \<and> m * 2 ^ 1074 \<in> \<int>"
  proof
    fix p assume p: "p \<in> set ?xs"
    with assms(2) obtain s m where s: "snd p = Finite s m" by blast
    from p obtain vecB where "snd p = cosineSimilarity queryEmbedding vecB"
      by (auto simp: scoreDocs_def)
    with s have "m * 2 ^ 1074 \<in> \<int>" using cosineSimilarity_grid [of queryEmbedding vecB s m]
      by simp
    with s show "\<exists>s m. snd p = Finite s m \<and> m * 2 ^ 1074 \<in> \<int>" by blast
  qed
  from assms(1) have "?xs \<noteq> []" by (simp add: scoreDocs_def)
  from insertion_sort_head [OF grid this] obtain best rest
    where "insertion_sort by_score ?xs = best # rest" "best \<in> set ?xs"
      "\<forall>p \<in> set ?xs. \<not> js_gt (snd p) (snd best)"
    by blast
  with by_score_consistent [OF grid] show ?thesis
    by (simp add: topDocs_def Array_sort_def)
qed

subsection \<open>The empty corpus\<close>

text \<open>
  Claim C4. On an empty corpus, for every query vector, the result is the successful
  response with the fixed "no information" answer and confidence 0.
\<close>

theorem empty_corpus_answer:
  "rank_and_answer engine queryEmbedding [] =
     QueryOk ''I don't have any information in my database yet. Please add some documents first.''
       (Finite False 0)"
  by (simp add: rank_and_answer_def no_documents_answer_def)

subsection \<open>The tiers\<close>

lemma confidence_zero: "Math_round (js_mul (Finite False 0) (double_of_rat 100)) = Finite False 0"
  by (simp add: literal_100 round_to_double_def Math_round_zero del: Math_round.simps)

text \<open>
  The tiers, read off the head of the sorted list: above the double \<open>0.7\<close> the text of the
  chunk, above the double \<open>0.6\<close> the hedged text, otherwise the refusal with confidence
  \<open>+0\<close>; the comparisons are strict, and false for a score of \<open>NaN\<close>.
\<close>

lemma tier_of_head:
  assumes "allDocs \<noteq> []" "topDocs engine queryEmbedding allDocs = bestMatch # rest"
  shows "rank_and_answer engine queryEmbedding allDocs =
    (if js_gt (snd bestMatch) (double_of_rat (7 / 10))
     then QueryOk (text' (fst bestMatch)) (Math_round (js_mul (snd bestMatch) (Finite False 100)))
     else if js_gt (snd bestMatch) (double_of_rat (6 / 10))
     then QueryOk (''Based on my knowledge: '' @ text' (fst bestMatch))
            (Math_round (js_mul (snd bestMatch) (Finite False 100)))
     else QueryOk refusal_answer (Finite False 0))"
  using assms unfolding rank_and_answer_def confidence_zero
  unfolding literal_100 hedge_prefix_def
  by (simp del: Math_round.simps js_mul.simps)

text \<open>
  Hence, on a non-empty corpus in which no score is \<open>NaN\<close> or infinite, the answer is
  decided by a chunk that no other chunk outscores, whatever the engine.
\<close>

lemma best_chunk_policy:
  assumes "allDocs \<noteq> []"
    and "\<forall>p \<in> set (scoreDocs queryEmbedding allDocs). \<exists>s m. snd p = Finite s m"
  shows "\<exists>bestMatch \<in> set (scoreDocs queryEmbedding allDocs).
    (\<forall>p \<in> set (scoreDocs queryEmbedding allDocs). \<not> js_gt (snd p) (snd bestMatch)) \<and>
    rank_and_answer engine queryEmbedding allDocs =
      (if js_gt (snd bestMatch) (double_of_rat (7 / 10))
       then QueryOk (text' (fst bestMatch))
              (Math_round (js_mul (snd bestMatch) (Finite False 100)))
       else if js_gt (snd bestMatch) (double_of_rat (6 / 10))
       then QueryOk (''Based on my knowledge: '' @ text' (fst bestMatch))
              (Math_round (js_mul (snd bestMatch) (Finite False 100)))
       else QueryOk refusal_answer (Finite False 0))"
proof -
  from best_chunk_first [OF assms] obtain bestMatch rest
    where top: "topDocs engine queryEmbedding allDocs = bestMatch # rest"
      and best: "bestMatch \<in> set (scoreDocs queryEmbedding allDocs)"
        "\<forall>p \<in> set (scoreDocs queryEmbedding allDocs). \<not> js_gt (snd p) (snd bestMatch)"
    by blast
  from tier_of_head [OF assms(1) top] best show ?thesis by blast
qed

text \<open>
  At the boundaries: a query \<^verbatim>\<open>[1, 8]\<close> against a chunk embedded as \<^verbatim>\<open>[7, 4]\<close>, whose
  cosine is \<open>0.6\<close> in exact arithmetic, scores \<^verbatim>\<open>0.6000000000000001\<close> and gets the hedged
  answer with confidence 60; a query \<^verbatim>\<open>[19, 5, 2]\<close> against \<^verbatim>\<open>[10, 17, -1]\<close>, whose cosine
  is \<open>0.7\<close> in exact arithmetic, scores \<^verbatim>\<open>0.7000000000000001\<close> and gets the verbatim answer
  with confidence 70.
\<close>

lemma answer_at_0_6000000000000001:
  assumes "embedding doc = Some [Finite False 7, Finite False 4]"
  shows "rank_and_answer engine (Some [Finite False 1, Finite False 8]) [doc] =
    QueryOk (''Based on my knowledge: '' @ text' doc) (Finite False 60)"
proof -
  define s where "s = Finite False (1351079888211149 / 2 ^ 51)"
  have "cosineSimilarity (Some [Finite False 1, Finite False 8])
      (Some [Finite False 7, Finite False 4]) = s"
    unfolding s_def cosineSimilarity_1_8_7_4 by (rule literal_0_6000000000000001)
  from topDocs_single [OF assms this [unfolded s_def]]
  have top: "topDocs engine (Some [Finite False 1, Finite False 8]) [doc] = [(doc, s)]"
    by (simp only: s_def)
  have 7: "\<not> js_gt s (double_of_rat (7 / 10))"
    by (simp add: s_def literal_0_7 signed_def)
  have 6: "js_gt s (double_of_rat (6 / 10))"
    unfolding s_def literal_0_6 by (simp add: signed_def)
  have "js_mul s (Finite False 100) = Finite False (8444249301319681 / 2 ^ 47)"
    unfolding s_def by (rule mul_0_6000000000000001_100)
  moreover have "Math_round (Finite False (8444249301319681 / 2 ^ 47)) = Finite False 60"
    by (subst Math_round_eval [where r = 60]) (simp_all add: signed_def)
  ultimately have conf: "Math_round (js_mul s (Finite False 100)) = Finite False 60"
    by (simp only:)
  from tier_of_head [OF _ top] 7 6 conf show ?thesis by simp
qed

lemma answer_at_0_7000000000000001:
  assumes "embedding doc = Some [Finite False 10, Finite False 17, Finite True 1]"
  shows "rank_and_answer engine (Some [Finite False 19, Finite False 5, Finite False 2]) [doc] =
    QueryOk (text' doc) (Finite False 70)"
proof -
  define s where "s = Finite False (6305039478318695 / 2 ^ 53)"
  have "cosineSimilarity (Some [Finite False 19, Finite False 5, Finite False 2])
      (Some [Finite False 10, Finite False 17, Finite True 1]) = s"
    unfolding s_def cosineSimilarity_19_5_2_10_17_m1 by (rule literal_0_7000000000000001)
  from topDocs_single [OF assms this [unfolded s_def]]
  have top: "topDocs engine (Some [Finite False 19, Finite False 5, Finite False 2]) [doc] =
      [(doc, s)]"
    by (simp only: s_def)
  have 7: "js_gt s (double_of_rat (7 / 10))"
    by (simp add: s_def literal_0_7 signed_def)
  have "js_mul s (Finite False 100) = Finite False 70"
    unfolding s_def by (rule mul_0_7000000000000001_100)
  moreover have "Math_round (Finite False 70) = Finite False 70"
    by (subst Math_round_eval [where r = 70]) (simp_all add: signed_def)
  ultimately have conf: "Math_round (js_mul s (Finite False 100)) = Finite False 70"
    by (simp only:)
  from tier_of_head [OF _ top] 7 conf show ?thesis by simp
qed

text \<open>
  Claim C1 has the answer come from the best-scoring chunk. A score of \<open>NaN\<close> defeats the
  comparator: every difference with it is \<open>NaN\<close>, so the chunk is moved past no other and
  no other is moved past it. With the query vector \<^verbatim>\<open>[2 ** 500]\<close>, a first chunk with
  the embedding \<^verbatim>\<open>[2 ** 600]\<close> scores \<open>NaN\<close> and stays first, the second chunk with the
  embedding \<^verbatim>\<open>[1]\<close> scores 1, and the answer is the refusal with confidence 0.
\<close>

theorem nan_score_hides_best_chunk:
  "scoreDocs (Some [Finite False (2 ^ 500)])
     [\<lparr>docId = ''location-1'', chunkIndex = 0, text' = ''astu is found in adama'',
       embedding = Some [Finite False (2 ^ 600)],
       metadata = \<lparr>title = ''ASTU Location'', category = ''location'', totalChunks = Some 1\<rparr>,
       createdAt = 0\<rparr>,
      \<lparr>docId = ''general-1'', chunkIndex = 0, text' = ''sky is blue'',
       embedding = Some [Finite False 1],
       metadata = \<lparr>title = ''General Fact'', category = ''general'', totalChunks = Some 1\<rparr>,
       createdAt = 0\<rparr>] =
     [(\<lparr>docId = ''location-1'', chunkIndex = 0, text' = ''astu is found in adama'',
        embedding = Some [Finite False (2 ^ 600)],
        metadata = \<lparr>title = ''ASTU Location'', category = ''location'', totalChunks = Some 1\<rparr>,
        createdAt = 0\<rparr>, NaN),
      (\<lparr>docId = ''general-1'', chunkIndex = 0, text' = ''sky is blue'',
        embedding = Some [Finite False 1],
        metadata = \<lparr>title = ''General Fact'', category = ''general'', totalChunks = Some 1\<rparr>,
        createdAt = 0\<rparr>, Finite False 1)] \<and>
   rank_and_answer insertion_engine (Some [Finite False (2 ^ 500)])
     [\<lparr>docId = ''location-1'', chunkIndex = 0, text' = ''astu is found in adama'',
       embedding = Some [Finite False (2 ^ 600)],
       metadata = \<lparr>title = ''ASTU Location'', category = ''location'', totalChunks = Some 1\<rparr>,
       createdAt = 0\<rparr>,
      \<lparr>docId = ''general-1'', chunkIndex = 0, text' = ''sky is blue'',
       embedding = Some [Finite False 1],
       metadata = \<lparr>title = ''General Fact'', category = ''general'', totalChunks = Some 1\<rparr>,
       createdAt = 0\<rparr>] = QueryOk refusal_answer (Finite False 0)"
proof -
  define a where "a = Finite False (2 ^ 500)"
  define b where "b = Finite False (2 ^ 600)"
  define d1 where "d1 = \<lparr>docId = ''location-1'', chunkIndex = 0,
       text' = ''astu is found in adama'', embedding = Some [b],
       metadata = \<lparr>title = ''ASTU Location'', category = ''location'', totalChunks = Some 1\<rparr>,
       createdAt = 0\<rparr>"
  define d2 where "d2 = \<lparr>docId = ''general-1'', chunkIndex = 0, text' = ''sky is blue'',
       embedding = Some [Finite False 1],
       metadata = \<lparr>title = ''General Fact'', category = ''general'', totalChunks = Some 1\<rparr>,
       createdAt = 0\<rparr>"
  have s1: "cosineSimilarity (Some [a]) (Some [b]) = NaN"
    unfolding a_def b_def cosineSimilarity_singleton mul_a_b mul_a_a add_zero_aa sqrt_aa mul_b_b
    by (simp add: signed_def)
  have s2: "cosineSimilarity (Some [a]) (Some [Finite False 1]) = Finite False 1"
    unfolding a_def cosineSimilarity_singleton mul_a_one mul_a_a add_zero_aa sqrt_aa add_zero_a
      mul_one_one add_zero_one sqrt_one div_a_a
    by (simp add: signed_def)
  have emb: "embedding d1 = Some [b]" "embedding d2 = Some [Finite False 1]"
    by (simp_all add: d1_def d2_def)
  have scores: "scoreDocs (Some [a]) [d1, d2] = [(d1, NaN), (d2, Finite False 1)]"
    by (simp add: scoreDocs_def emb s1 s2)
  have "\<not> consistent_comparator by_score [(d1, NaN), (d2, Finite False 1)]"
    by (simp add: consistent_comparator_def by_score_def js_sub_def)
  then have "Array_sort insertion_engine by_score [(d1, NaN), (d2, Finite False 1)] =
      [(d1, NaN), (d2, Finite False 1)]"
    by (simp add: Array_sort_def insertion_engine_def insertion_sort_def by_score_def js_sub_def)
  then have top: "topDocs insertion_engine (Some [a]) [d1, d2] =
      [(d1, NaN), (d2, Finite False 1)]"
    by (simp add: topDocs_def scores)
  have "rank_and_answer insertion_engine (Some [a]) [d1, d2] =
      QueryOk refusal_answer (Finite False 0)"
    by (simp add: rank_and_answer_def top confidence_zero)
  with scores show ?thesis unfolding d1_def d2_def a_def b_def by (rule conjI)
qed

subsection \<open>The confidence\<close>

text \<open>
  The confidence is never negative and never \<open>NaN\<close>, when the engine returns elements of
  the array it sorts: it is \<open>+0\<close>, or the rounding of 100 times a score above the double
  \<open>0.6\<close>.
\<close>

lemma confidence_of_score:
  assumes "js_gt (Finite False m) (Finite False p)" "0 < p"
  shows "Math_round (js_mul (Finite False m) (Finite False 100)) = Infinity False \<or>
    (\<exists>w. 0 \<le> w \<and> Math_round (js_mul (Finite False m) (Finite False 100)) = Finite False w)"
proof -
  from assms have "0 \<le> m * 100" by (simp add: signed_def)
  from round_to_double_nonneg [OF this] show ?thesis
  proof
    assume "round_to_double False (m * 100) = Infinity False"
    then show ?thesis by simp
  next
    assume "\<exists>v. 0 \<le> v \<and> round_to_double False (m * 100) = Finite False v"
    then obtain v where v: "0 \<le> v" "round_to_double False (m * 100) = Finite False v" by blast
    from Math_round_nonneg [OF v(1)] v(2) show ?thesis by simp
  qed
qed

lemma score_above:
  assumes "js_gt s (Finite False p)" "0 < p" "\<And>t m. s = Finite t m \<Longrightarrow> 0 \<le> m"
  shows "Math_round (js_mul s (double_of_rat 100)) \<noteq> NaN \<and>
    \<not> js_gt (Finite False 0) (Math_round (js_mul s (double_of_rat 100)))"
proof (cases s)
  case NaN
  with assms(1) show ?thesis by simp
next
  case (Infinity t)
  with assms(1) show ?thesis by (simp add: literal_100)
next
  case (Finite t m)
  with assms(3) have m: "0 \<le> m" by simp
  with assms(1,2) Finite have t: "\<not> t" by (auto simp: signed_def split: if_splits)
  with assms(1) Finite have "js_gt (Finite False m) (Finite False p)" by simp
  from confidence_of_score [OF this assms(2)] Finite t show ?thesis
    by (auto simp: literal_100 signed_def)
qed

lemma confidence_not_negative:
  assumes "\<And>xs. set (engine by_score xs) \<subseteq> set xs"
  shows "\<exists>answer confidence.
     rank_and_answer engine queryEmbedding allDocs = QueryOk answer confidence \<and>
     confidence \<noteq> NaN \<and> \<not> js_gt (Finite False 0) confidence"
proof (cases "length allDocs = 0 \<or> topDocs engine queryEmbedding allDocs = []")
  case True
  then show ?thesis
    by (auto simp: rank_and_answer_def confidence_zero signed_def)
next
  case False
  then obtain bestMatch rest where t: "topDocs engine queryEmbedding allDocs = bestMatch # rest"
    by (cases "topDocs engine queryEmbedding allDocs") auto
  let ?s = "snd bestMatch"
  have "set (Array_sort engine by_score (scoreDocs queryEmbedding allDocs))
      \<subseteq> set (scoreDocs queryEmbedding allDocs)"
    using assms by (simp add: Array_sort_def set_insertion_sort)
  moreover have "bestMatch \<in> set (Array_sort engine by_score (scoreDocs queryEmbedding allDocs))"
    using t set_take_subset [of 3 "Array_sort engine by_score (scoreDocs queryEmbedding allDocs)"]
    by (auto simp: topDocs_def)
  ultimately have "bestMatch \<in> set (scoreDocs queryEmbedding allDocs)" by blast
  then obtain vecB where "?s = cosineSimilarity queryEmbedding vecB"
    by (auto simp: scoreDocs_def)
  then have wf: "0 \<le> m" if "?s = Finite u m" for u m
    using that cosineSimilarity_magnitude [of queryEmbedding vecB u m] by simp
  show ?thesis
  proof (cases "js_gt ?s (double_of_rat (7 / 10))")
    case True
    then have "js_gt ?s (Finite False (3152519739159347 / 2 ^ 52))" by (simp only: literal_0_7)
    from score_above [OF this _ wf] True False t show ?thesis by (simp add: rank_and_answer_def)
  next
    case n7: False
    show ?thesis
    proof (cases "js_gt ?s (double_of_rat (6 / 10))")
      case True
      then have "js_gt ?s (Finite False (5404319552844595 / 2 ^ 53))" by (simp only: literal_0_6)
      from score_above [OF this _ wf] True n7 False t show ?thesis
        by (simp add: rank_and_answer_def)
    next
      case n6: False
      with n7 False t show ?thesis
        by (simp add: rank_and_answer_def confidence_zero signed_def)
    qed
  qed
qed

text \<open>
  Claim C5 bounds the confidence by 100. The bound rests on a score of at most 1, and the
  scorer does not keep it: for the query vector \<^verbatim>\<open>[1]\<close> and a stored embedding
  \<^verbatim>\<open>[2.7e-162]\<close> the square of the component underflows to the smallest positive double,
  the magnitude comes out too small, the score is \<^verbatim>\<open>1.214706724526663\<close> and the
  confidence is 121.
\<close>

theorem confidence_above_100:
  "cosineSimilarity (Some [Finite False 1]) (Some [double_of_rat (27 / 10 ^ 163)]) =
     Finite False (5470552751942715 / 2 ^ 52) \<and>
   rank_and_answer engine (Some [Finite False 1])
     [\<lparr>docId = ''general-1'', chunkIndex = 0, text' = ''sky is blue'',
       embedding = Some [double_of_rat (27 / 10 ^ 163)],
       metadata = \<lparr>title = ''General Fact'', category = ''general'', totalChunks = Some 1\<rparr>,
       createdAt = 0\<rparr>] = QueryOk ''sky is blue'' (Finite False 121)"
proof -
  define doc where "doc = \<lparr>docId = ''general-1'', chunkIndex = 0, text' = ''sky is blue'',
       embedding = Some [double_of_rat (27 / 10 ^ 163)],
       metadata = \<lparr>title = ''General Fact'', category = ''general'', totalChunks = Some 1\<rparr>,
       createdAt = 0\<rparr>"
  define x where "x = double_of_rat (27 / 10 ^ 163)"
  define s where "s = Finite False (5470552751942715 / 2 ^ 52)"
  have score: "cosineSimilarity (Some [Finite False 1]) (Some [x]) = s"
    unfolding x_def s_def cosineSimilarity_singleton literal_2_7e_162
      mul_one_x add_zero_x mul_one_one add_zero_one sqrt_one mul_x_x add_zero_xx sqrt_xx
      mul_one_sx div_x_sx
    by (simp add: signed_def)
  have emb: "embedding doc = Some [x]" and body: "text' doc = ''sky is blue''"
    by (simp_all add: doc_def x_def)
  have top: "topDocs engine (Some [Finite False 1]) [doc] = [(doc, s)]"
    using Array_sort_single [of engine doc False "5470552751942715 / 2 ^ 52"]
    by (simp add: topDocs_def scoreDocs_def emb score s_def)
  have high: "js_gt s (double_of_rat (7 / 10))"
    by (simp add: s_def literal_0_7 signed_def)
  have "js_mul s (double_of_rat 100) = Finite False (2136934668727623 / 2 ^ 44)"
    unfolding s_def literal_100 by (rule mul_score_100)
  moreover have "Math_round (Finite False (2136934668727623 / 2 ^ 44)) = Finite False 121"
    by (subst Math_round_eval [where r = 121]) (simp_all add: signed_def)
  ultimately have conf: "Math_round (js_mul s (double_of_rat 100)) = Finite False 121"
    by (simp only:)
  have "rank_and_answer engine (Some [Finite False 1]) [doc] =
      QueryOk ''sky is blue'' (Finite False 121)"
    by (simp add: rank_and_answer_def top high conf body)
  with score show ?thesis unfolding doc_def x_def s_def by (rule conjI)
qed

section \<open>Properties of the ingestion paths\<close>

lemma chunkText_returns:
  assumes "1 \<le> chunkSize"
  shows "\<exists>chunks. chunkText text chunkSize = Some chunks"
  using chunk_loop_returns [OF assms] by (simp add: chunkText_def Let_def)

lemma ingest_ok:
  assumes "ingest getEmbeddings now (Some d) (Some t) req_meta coll = Some (IngestOk d' n, coll')"
  shows "\<exists>chunks embeddings. chunkText t 400 = Some chunks \<and> chunks \<noteq> [] \<and>
    getEmbeddings chunks = Inr embeddings \<and> d' = d \<and> n = length chunks \<and>
    coll' = filter (\<lambda>c. docId c \<noteq> d) coll @ ingest_documents d now req_meta chunks embeddings"
  using assms
  by (auto simp: ingest_def or_else_def Let_def deleteMany_def insertMany_def ingest_documents_def
      split: if_splits option.splits sum.splits)

lemma ingest_documents_docId:
  "filter (\<lambda>c. docId c = d) (ingest_documents d now m chunks embs) = ingest_documents d now m chunks embs"
  by (rule filter_True) (auto simp: ingest_documents_def)

lemma ingest_documents_not_docId:
  "filter (\<lambda>c. docId c \<noteq> d) (ingest_documents d now m chunks embs) = []"
  by (auto simp: ingest_documents_def filter_empty_conv)

lemma ingest_documents_text: "map text' (ingest_documents d now m chunks embs) = chunks"
  by (simp add: ingest_documents_def comp_def case_prod_unfold)

lemma ingest_documents_index:
  "map chunkIndex (ingest_documents d now m chunks embs) = [0..<length chunks]"
  by (simp add: ingest_documents_def comp_def case_prod_unfold)

lemma ingest_returns:
  "\<exists>result. ingest getEmbeddings now req_docId req_text req_meta coll = Some result"
proof -
  obtain chunks where "chunkText (or_else req_text []) 400 = Some chunks"
    using chunkText_returns [of 400] by auto
  then show ?thesis
    by (simp add: ingest_def Let_def split: sum.splits)
qed

lemma ingest_documents_total:
  "map (\<lambda>c. totalChunks (metadata c)) (ingest_documents d now m chunks embs) =
     replicate (length chunks) (Some (length chunks))"
  by (rule nth_equalityI) (simp_all add: ingest_documents_def)

text \<open>
  The records written by \<^verbatim>\<open>POST /ingest\<close> carry \<open>totalChunks\<close>: after a successful
  ingestion the records of the document have the indices \<open>0, \<dots>, n - 1\<close> and all of them
  hold \<open>totalChunks = n\<close>, with \<open>n \<ge> 1\<close>.
\<close>

lemma ingest_invariant:
  assumes "ingest getEmbeddings now (Some d) (Some t) req_meta coll = Some (IngestOk d' n, coll')"
  shows "1 \<le> n \<and> map chunkIndex (filter (\<lambda>c. docId c = d) coll') = [0..<n] \<and>
    map (\<lambda>c. totalChunks (metadata c)) (filter (\<lambda>c. docId c = d) coll') = replicate n (Some n)"
proof -
  from ingest_ok [OF assms] obtain chunks embeddings
    where ne: "chunks \<noteq> []" and n: "n = length chunks"
      and coll': "coll' = filter (\<lambda>c. docId c \<noteq> d) coll @
        ingest_documents d now req_meta chunks embeddings"
    by blast
  have "filter (\<lambda>c. docId c = d) coll' = ingest_documents d now req_meta chunks embeddings"
    unfolding coll' by (simp add: ingest_documents_docId)
  with ne n show ?thesis
    by (simp add: ingest_documents_index ingest_documents_total Suc_le_eq)
qed

text \<open>
  Claim C8. When a document identifier is ingested a second time, the collection afterwards
  holds, for that identifier, exactly the chunks of the second text: their texts in order,
  the indices \<open>0, \<dots>, n - 1\<close>, and as many records as the second text has chunks.
\<close>

theorem reingest_replaces:
  assumes "ingest getEmbeddings1 now1 (Some documentId) text1 meta1 coll0 = Some (response1, coll1)"
    and "ingest getEmbeddings2 now2 (Some documentId) (Some text2) meta2 coll1 =
           Some (IngestOk documentId' n, coll2)"
  shows "\<exists>chunks2. chunkText text2 400 = Some chunks2 \<and>
    map text' (filter (\<lambda>d. docId d = documentId) coll2) = chunks2 \<and>
    map chunkIndex (filter (\<lambda>d. docId d = documentId) coll2) = [0..<length chunks2] \<and>
    length (filter (\<lambda>d. docId d = documentId) coll2) = length chunks2 \<and>
    n = length chunks2"
proof -
  from ingest_ok [OF assms(2)] obtain chunks embeddings
    where c: "chunkText text2 400 = Some chunks" and n: "n = length chunks"
      and coll2: "coll2 = filter (\<lambda>c. docId c \<noteq> documentId) coll1 @
        ingest_documents documentId now2 meta2 chunks embeddings"
    by blast
  have f: "filter (\<lambda>d. docId d = documentId) coll2 =
      ingest_documents documentId now2 meta2 chunks embeddings"
    unfolding coll2 by (simp add: ingest_documents_docId)
  have "length (ingest_documents documentId now2 meta2 chunks embeddings) = length chunks"
    by (simp add: ingest_documents_def)
  with c n f show ?thesis
    by (simp add: ingest_documents_text ingest_documents_index)
qed

theorem reingest_replaces_witness:
  "\<exists>coll1 coll2.
     ingest (\<lambda>ts. Inr (map (\<lambda>_. [Finite False 1]) ts)) 1 (Some ''d1'') (Some ''The sky is blue.'')
       \<lparr>req_title = None, req_category = None\<rparr> [] = Some (IngestOk ''d1'' 1, coll1) \<and>
     ingest (\<lambda>ts. Inr (map (\<lambda>_. [Finite False 1]) ts)) 2 (Some ''d1'') (Some ''Grass is green.'')
       \<lparr>req_title = None, req_category = None\<rparr> coll1 = Some (IngestOk ''d1'' 1, coll2) \<and>
     map text' (filter (\<lambda>d. docId d = ''d1'') coll2) = [''Grass is green.''] \<and>
     length (filter (\<lambda>d. docId d = ''d1'') coll2) = 1"
proof -
  let ?g = "\<lambda>ts :: string list. Inr (map (\<lambda>_. [Finite False 1]) ts) :: string + double list list"
  let ?m = "\<lparr>req_title = None, req_category = None\<rparr>"
  have c1: "chunkText ''The sky is blue.'' 400 = Some [''The sky is blue.'']" by code_simp
  have c2: "chunkText ''Grass is green.'' 400 = Some [''Grass is green.'']" by code_simp
  obtain coll1 where i1: "ingest ?g 1 (Some ''d1'') (Some ''The sky is blue.'') ?m [] =
      Some (IngestOk ''d1'' 1, coll1)"
    by (simp add: ingest_def or_else_def c1 Let_def)
  obtain coll2 where i2: "ingest ?g 2 (Some ''d1'') (Some ''Grass is green.'') ?m coll1 =
      Some (IngestOk ''d1'' 1, coll2)"
    by (simp add: ingest_def or_else_def c2 Let_def)
  from reingest_replaces [OF i1 i2] c2 i1 i2 show ?thesis by auto
qed

text \<open>
  Claim C9 asks the same of every path that inserts chunks. \<^verbatim>\<open>POST /load-my-data\<close> stores
  the \<^verbatim>\<open>metadata\<close> object of the seed document as it is, and none of them has
  \<open>totalChunks\<close>: the ten records it writes all lack the field.
\<close>

theorem load_my_data_omits_totalChunks:
  "map_option (\<lambda>(response, coll).
       (response, map (\<lambda>d. (docId d, chunkIndex d, totalChunks (metadata d))) coll))
     (load_my_data (\<lambda>ts. Inr (map (\<lambda>_. [Finite False 1]) ts)) 0 []) =
   Some (LoadOk 10 10,
     [(''csec-lab-1'', 0, None), (''csec-lab-2'', 0, None), (''csec-astu-1'', 0, None),
      (''csec-dev-1'', 0, None), (''general-1'', 0, None), (''personal-1'', 0, None),
      (''location-1'', 0, None), (''location-2'', 0, None), (''location-3'', 0, None),
      (''csec-lab-3'', 0, None)])"
  by code_simp

text \<open>
  This does not depend on the provider or on the collection before: whenever the handler
  answers, no record of the collection has \<open>totalChunks\<close>.
\<close>

lemma load_loop_no_totalChunks:
  assumes "\<forall>s \<in> set seeds. totalChunks (seed_metadata s) = None"
    and "\<forall>d \<in> set coll. totalChunks (metadata d) = None"
    and "load_loop getEmbeddings now seeds total_chunks coll = Some (response, coll')"
  shows "\<forall>d \<in> set coll'. totalChunks (metadata d) = None"
  using assms
proof (induction seeds arbitrary: total_chunks coll)
  case Nil
  then show ?case by simp
next
  case (Cons doc rest)
  from Cons.prems(1) have d: "totalChunks (seed_metadata doc) = None"
    and r: "\<forall>s \<in> set rest. totalChunks (seed_metadata s) = None" by simp_all
  from Cons.prems(3) obtain chunks where c: "chunkText (seed_text doc) 400 = Some chunks"
    by (cases "chunkText (seed_text doc) 400") simp_all
  show ?case
  proof (cases "length chunks = 0")
    case True
    with Cons.prems(3) c have "load_loop getEmbeddings now rest total_chunks coll =
        Some (response, coll')" by simp
    from Cons.IH [OF r Cons.prems(2) this] show ?thesis .
  next
    case False
    show ?thesis
    proof (cases "getEmbeddings chunks")
      case (Inl message)
      with Cons.prems(3) c False have "coll' = coll" by simp
      with Cons.prems(2) show ?thesis by simp
    next
      case (Inr embeddings)
      let ?documents = "map (\<lambda>(chunkText, idx).
          \<lparr>docId = seed_docId doc, chunkIndex = idx, text' = chunkText,
           embedding = at_index embeddings idx, metadata = seed_metadata doc,
           createdAt = now\<rparr>) (zip chunks [0..<length chunks])"
      from Cons.prems(3) c False Inr
      have step: "load_loop getEmbeddings now rest (total_chunks + length chunks)
          (insertMany ?documents coll) = Some (response, coll')"
        by (simp add: Let_def)
      have "\<forall>d \<in> set (insertMany ?documents coll). totalChunks (metadata d) = None"
        using Cons.prems(2) d by (auto simp: insertMany_def)
      from Cons.IH [OF r this step] show ?thesis .
    qed
  qed
qed

lemma myData_no_totalChunks: "\<forall>s \<in> set myData. totalChunks (seed_metadata s) = None"
  by (simp add: myData_def seed_doc_def)

lemma load_my_data_no_totalChunks:
  assumes "load_my_data getEmbeddings now coll = Some (response, coll')"
  shows "\<forall>d \<in> set coll'. totalChunks (metadata d) = None"
proof -
  have "\<forall>d \<in> set (deleteMany (\<lambda>d. True) coll). totalChunks (metadata d) = None"
    by (simp add: deleteMany_def)
  from load_loop_no_totalChunks [OF myData_no_totalChunks this] assms show ?thesis
    unfolding load_my_data_def by blast
qed

end
